theory Spec2Isabelle
  imports Complex_Main
begin

section \<open>Strings of the source language\<close>

text \<open>
  A string of the program is a sequence of UTF-16 code units; \<open>length\<close> counts code
  units, as \<^verbatim>\<open>.length\<close> does. A code unit is modelled by its numeric value, so the
  characters beyond Latin-1 that the source mentions (the lightning sign of the document
  shell, the Unicode spaces of \<^verbatim>\<open>\s\<close>) are ordinary elements.
\<close>

type_synonym jstring = "nat list"

definition lit :: "string \<Rightarrow> jstring" where
  "lit s = map of_char s"

text \<open>
  The class \<^verbatim>\<open>\s\<close> of a regular expression, which is also the set of code units that
  \<^verbatim>\<open>trim()\<close> strips: tab, line feed, vertical tab, form feed, carriage return, space,
  no-break space, U+1680, U+2000 to U+200A, U+2028, U+2029, U+202F, U+205F, U+3000, U+FEFF.
\<close>

definition is_ws :: "nat \<Rightarrow> bool" where
  "is_ws c = ((9 \<le> c \<and> c \<le> 13) \<or> c = 32 \<or> c = 160 \<or> c = 5760
     \<or> (8192 \<le> c \<and> c \<le> 8202) \<or> c = 8232 \<or> c = 8233 \<or> c = 8239 \<or> c = 8287
     \<or> c = 12288 \<or> c = 65279)"

text \<open>The class \<^verbatim>\<open>\w\<close>: ASCII letters, digits and the underscore.\<close>

definition is_word :: "nat \<Rightarrow> bool" where
  "is_word c = ((48 \<le> c \<and> c \<le> 57) \<or> (65 \<le> c \<and> c \<le> 90) \<or> c = 95 \<or> (97 \<le> c \<and> c \<le> 122))"

text \<open>
  Case folding of the \<^verbatim>\<open>i\<close> flag. Without the \<^verbatim>\<open>u\<close> flag a code unit outside
  ASCII never folds onto an ASCII letter, so against the ASCII patterns of this program
  folding is the ASCII one.
\<close>

definition canon :: "nat \<Rightarrow> nat" where
  "canon c = (if 97 \<le> c \<and> c \<le> 122 then c - 32 else c)"

definition trim :: "jstring \<Rightarrow> jstring" where
  "trim s = rev (dropWhile is_ws (rev (dropWhile is_ws s)))"

fun starts_with :: "jstring \<Rightarrow> jstring \<Rightarrow> bool" where
  "starts_with s [] = True"
| "starts_with [] (p # ps) = False"
| "starts_with (c # cs) (p # ps) = (c = p \<and> starts_with cs ps)"

text \<open>\<open>starts_ci s pat\<close>: the literal \<open>pat\<close> matches at the start of \<open>s\<close> under the \<^verbatim>\<open>i\<close> flag.\<close>

fun starts_ci :: "jstring \<Rightarrow> jstring \<Rightarrow> bool" where
  "starts_ci s [] = True"
| "starts_ci [] (p # ps) = False"
| "starts_ci (c # cs) (p # ps) = (canon c = canon p \<and> starts_ci cs ps)"

text \<open>\<^verbatim>\<open>s.includes(pat)\<close>.\<close>

fun js_includes :: "jstring \<Rightarrow> jstring \<Rightarrow> bool" where
  "js_includes [] pat = (pat = [])"
| "js_includes (c # cs) pat = (starts_with (c # cs) pat \<or> js_includes cs pat)"

fun includes_ci :: "jstring \<Rightarrow> jstring \<Rightarrow> bool" where
  "includes_ci [] pat = (pat = [])"
| "includes_ci (c # cs) pat = (starts_ci (c # cs) pat \<or> includes_ci cs pat)"

text \<open>
  \<^verbatim>\<open>s.split(re)\<close> for a regular expression \<^verbatim>\<open>[...]+\<close> over one character class: the
  string is cut at every maximal run of the class. An empty input gives one empty piece,
  a run at either end gives an empty piece there.
\<close>

function split_on :: "(nat \<Rightarrow> bool) \<Rightarrow> jstring \<Rightarrow> jstring list" where
  "split_on P [] = [[]]"
| "split_on P (c # cs) =
     (if P c then [] # split_on P (dropWhile P cs)
      else (case split_on P cs of [] \<Rightarrow> [[c]] | t # ts \<Rightarrow> (c # t) # ts))"
  by pat_completeness auto
termination
  by (relation "measure (\<lambda>(P, s). length s)") (auto simp: length_dropWhile_le le_imp_less_Suc)

text \<open>\<^verbatim>\<open>text.trim().split(/\s+/)\<close>, the word list of the segmenter and of the duration.\<close>

definition words_of :: "jstring \<Rightarrow> jstring list" where
  "words_of s = split_on is_ws (trim s)"

section \<open>Regular expressions of the source\<close>

text \<open>
  Each regular expression of the source is modelled by its match anchored at the start of
  the input: the rest of the input behind the match that the backtracking engine picks
  there, or \<open>None\<close> when the expression does not match at that position. Searching and
  replacing then walk over the positions from left to right, as the engine does.
\<close>

type_synonym matcher = "jstring \<Rightarrow> jstring option"

text \<open>
  \<^verbatim>\<open>s.replace(re, rep)\<close> for a global expression: matches do not overlap, the scan
  goes on behind each match. No expression of the program matches the empty string; the
  length test only records that a match consumes input.
\<close>

function replace_global :: "matcher \<Rightarrow> jstring \<Rightarrow> jstring \<Rightarrow> jstring" where
  "replace_global m rep [] = []"
| "replace_global m rep (c # cs) =
     (case m (c # cs) of
        None \<Rightarrow> c # replace_global m rep cs
      | Some rest \<Rightarrow>
          if length rest \<le> length cs then rep @ replace_global m rep rest
          else c # replace_global m rep cs)"
  by pat_completeness auto
termination
  by (relation "measure (\<lambda>(m, rep, s). length s)") auto

text \<open>\<^verbatim>\<open>s.replace(re, rep)\<close> without the global flag: the first match only.\<close>

fun replace_first :: "matcher \<Rightarrow> jstring \<Rightarrow> jstring \<Rightarrow> jstring" where
  "replace_first m rep [] = []"
| "replace_first m rep (c # cs) =
     (case m (c # cs) of None \<Rightarrow> c # replace_first m rep cs | Some rest \<Rightarrow> rep @ rest)"

text \<open>\<^verbatim>\<open>re.test(s)\<close> for an expression without anchor: a match at some position.\<close>

fun rx_test :: "(jstring \<Rightarrow> bool) \<Rightarrow> jstring \<Rightarrow> bool" where
  "rx_test m [] = m []"
| "rx_test m (c # cs) = (m (c # cs) \<or> rx_test m cs)"

text \<open>\<^verbatim>\<open>s.split(re)\<close>: the pieces between the matches, an empty input giving one empty piece.\<close>

function split_rx :: "matcher \<Rightarrow> jstring \<Rightarrow> jstring list" where
  "split_rx m [] = [[]]"
| "split_rx m (c # cs) =
     (case (case m (c # cs) of None \<Rightarrow> None
            | Some rest \<Rightarrow> if length rest \<le> length cs then Some rest else None) of
        Some rest \<Rightarrow> [] # split_rx m rest
      | None \<Rightarrow> (case split_rx m cs of [] \<Rightarrow> [[c]] | t # ts \<Rightarrow> (c # t) # ts))"
  by pat_completeness auto
termination
  by (relation "measure (\<lambda>(m, s). length s)") (auto split: option.splits if_splits)

text \<open>\<^verbatim>\<open>s.split('\n')\<close> and the like: a cut at every occurrence of one code unit.\<close>

fun split_char :: "nat \<Rightarrow> jstring \<Rightarrow> jstring list" where
  "split_char d [] = [[]]"
| "split_char d (c # cs) =
     (if c = d then [] # split_char d cs
      else (case split_char d cs of [] \<Rightarrow> [[c]] | t # ts \<Rightarrow> (c # t) # ts))"

text \<open>A literal, with and without the \<^verbatim>\<open>i\<close> flag.\<close>

definition m_lit :: "jstring \<Rightarrow> matcher" where
  "m_lit pat s = (if starts_with s pat then Some (drop (length pat) s) else None)"

definition m_lit_ci :: "jstring \<Rightarrow> matcher" where
  "m_lit_ci pat s = (if starts_ci s pat then Some (drop (length pat) s) else None)"

text \<open>\<^verbatim>\<open>[^>]*>\<close>: up to and including the first \<^verbatim>\<open>>\<close>.\<close>

definition after_gt :: matcher where
  "after_gt s = (case dropWhile (\<lambda>c. c \<noteq> 62) s of [] \<Rightarrow> None | g # r \<Rightarrow> Some r)"

text \<open>\<^verbatim>\<open>\b\<close> behind a word character: the end of the input or a non-word character.\<close>

definition word_boundary :: "jstring \<Rightarrow> bool" where
  "word_boundary s = (case s of [] \<Rightarrow> True | c # r \<Rightarrow> \<not> is_word c)"

text \<open>\<^verbatim>\<open>\/?\<close> in front of something that cannot start with a slash.\<close>

definition opt_slash :: "jstring \<Rightarrow> jstring" where
  "opt_slash s = (case s of [] \<Rightarrow> [] | c # r \<Rightarrow> if c = 47 then r else s)"

text \<open>The rest behind the first occurrence of a literal, under the \<^verbatim>\<open>i\<close> flag.\<close>

fun find_ci :: "jstring \<Rightarrow> jstring \<Rightarrow> jstring option" where
  "find_ci [] pat = (if pat = [] then Some [] else None)"
| "find_ci (c # cs) pat =
     (if starts_ci (c # cs) pat then Some (drop (length pat) (c # cs)) else find_ci cs pat)"

text \<open>
  \<^verbatim>\<open>/<script\b[^<]*(?:(?!<\/script>)<[^<]*)*<\/script>/gi\<close> and the same for
  \<^verbatim>\<open>style\<close>. Behind the opening name and its word boundary the expression runs from
  one \<^verbatim>\<open><\<close> to the next and can only stop at a closing tag, which the lookahead forbids
  it to pass: the match ends with the first closing tag, and fails when there is none.
\<close>

definition m_element :: "jstring \<Rightarrow> matcher" where
  "m_element name s =
     (if starts_ci s (60 # name) \<and> word_boundary (drop (Suc (length name)) s)
      then find_ci (drop (Suc (length name)) s) (lit ''</'' @ name @ lit ''>'')
      else None)"

text \<open>\<^verbatim>\<open>/<br\s*\/?>/gi\<close>.\<close>

definition m_br :: matcher where
  "m_br s =
     (if starts_ci s (lit ''<br'')
      then (case opt_slash (dropWhile is_ws (drop 3 s)) of
              [] \<Rightarrow> None | c # r \<Rightarrow> if c = 62 then Some r else None)
      else None)"

text \<open>\<^verbatim>\<open>/<p[^>]*>/gi\<close>.\<close>

definition m_p_open :: matcher where
  "m_p_open s = (if starts_ci s (lit ''<p'') then after_gt (drop 2 s) else None)"

text \<open>
  \<^verbatim>\<open>/<(?!\/?(strong|b|em|i|h[1-6]|blockquote|img)\b)[^>]*>/gi\<close>: a tag is removed
  unless its name, behind an optional slash, is one of the kept names followed by a word
  boundary.
\<close>

definition heading_name :: "jstring \<Rightarrow> bool" where
  "heading_name s =
     (case s of [] \<Rightarrow> False | h # r \<Rightarrow>
        (case r of [] \<Rightarrow> False | d # r' \<Rightarrow> canon h = 72 \<and> 49 \<le> d \<and> d \<le> 54))"

definition allowed_name :: "jstring \<Rightarrow> bool" where
  "allowed_name s =
     (list_ex (\<lambda>n. starts_ci s n \<and> word_boundary (drop (length n) s))
        [lit ''strong'', lit ''b'', lit ''em'', lit ''i'']
      \<or> (heading_name s \<and> word_boundary (drop 2 s))
      \<or> list_ex (\<lambda>n. starts_ci s n \<and> word_boundary (drop (length n) s))
        [lit ''blockquote'', lit ''img''])"

definition m_tag :: matcher where
  "m_tag s =
     (case s of [] \<Rightarrow> None
      | c # r \<Rightarrow> if c = 60 \<and> \<not> allowed_name (opt_slash r) then after_gt r else None)"

text \<open>
  The rest of the input behind the last line feed of the whitespace run the input starts
  with. In \<^verbatim>\<open>\n\s*\n\<close> and \<^verbatim>\<open>\n\s*\n\s*\n\<close> the greedy \<^verbatim>\<open>\s*\<close> runs over line feeds
  too and gives back only as far as the last line feed of the run.
\<close>

definition after_last_nl :: "jstring \<Rightarrow> jstring" where
  "after_last_nl s =
     (let run = takeWhile is_ws s
      in drop (length run - length (takeWhile (\<lambda>x. x \<noteq> 10) (rev run))) s)"

text \<open>\<^verbatim>\<open>/\n\s*\n\s*\n/g\<close>.\<close>

definition m_blank3 :: matcher where
  "m_blank3 s =
     (case s of [] \<Rightarrow> None
      | c # r \<Rightarrow> if c = 10 \<and> 2 \<le> count_list (takeWhile is_ws r) 10
                then Some (after_last_nl r) else None)"

text \<open>\<^verbatim>\<open>/\n\s*\n/\<close>, the paragraph separator.\<close>

definition m_blank2 :: matcher where
  "m_blank2 s =
     (case s of [] \<Rightarrow> None
      | c # r \<Rightarrow> if c = 10 \<and> 10 \<in> set (takeWhile is_ws r)
                then Some (after_last_nl r) else None)"

section \<open>Cleaning the content\<close>

definition cleanHTML :: "jstring \<Rightarrow> jstring" where
  "cleanHTML html =
     (let content = replace_global (m_element (lit ''script'')) [] html;
          content = replace_global (m_element (lit ''style'')) [] content;
          content = replace_global (m_lit (lit ''&nbsp;'')) (lit '' '') content;
          content = replace_global (m_lit (lit ''&amp;'')) (lit ''&'') content;
          content = replace_global (m_lit (lit ''&lt;'')) (lit ''<'') content;
          content = replace_global (m_lit (lit ''&gt;'')) (lit ''>'') content;
          content = replace_global (m_lit (lit ''&quot;'')) [34] content;
          content = replace_global (m_lit (lit ''&#39;'')) [39] content;
          content = replace_global m_br [10] content;
          content = replace_global (m_lit_ci (lit ''</p>'')) [10, 10] content;
          content = replace_global m_p_open [] content;
          content = replace_global m_tag [] content;
          content = replace_global m_blank3 [10, 10] content
      in trim content)"

section \<open>Classifying a paragraph\<close>

text \<open>\<^verbatim>\<open>/^<h[1-6]|^#{1,6}\s/.test(text.trim())\<close>, without the \<^verbatim>\<open>i\<close> flag.\<close>

definition hash_marker :: "jstring \<Rightarrow> jstring option" where
  "hash_marker s =
     (let n = length (takeWhile (\<lambda>c. c = 35) s)
      in if 1 \<le> n \<and> n \<le> 6
         then (case drop n s of [] \<Rightarrow> None | c # r \<Rightarrow> if is_ws c then Some r else None)
         else None)"

definition isHeading :: "jstring \<Rightarrow> bool" where
  "isHeading text =
     (let t = trim text
      in (case t of [] \<Rightarrow> False | a # r \<Rightarrow>
            (case r of [] \<Rightarrow> False | h # r' \<Rightarrow>
              (case r' of [] \<Rightarrow> False | d # r'' \<Rightarrow> a = 60 \<and> h = 104 \<and> 49 \<le> d \<and> d \<le> 54)))
         \<or> hash_marker t \<noteq> None)"

text \<open>\<^verbatim>\<open>/^<blockquote|^>/.test(text.trim()) || text.includes('<blockquote')\<close>.\<close>

definition isQuote :: "jstring \<Rightarrow> bool" where
  "isQuote text =
     ((starts_with (trim text) (lit ''<blockquote'') \<or> starts_with (trim text) (lit ''>''))
      \<or> js_includes text (lit ''<blockquote''))"

text \<open>
  \<^verbatim>\<open>/<img[^>]*src/i.test(text)\<close>: behind \<^verbatim>\<open><img\<close>, the letters \<^verbatim>\<open>src\<close> before
  the first \<^verbatim>\<open>>\<close>.
\<close>

definition hasImageInParagraph :: "jstring \<Rightarrow> bool" where
  "hasImageInParagraph text =
     rx_test (\<lambda>s. starts_ci s (lit ''<img'')
                 \<and> includes_ci (takeWhile (\<lambda>c. c \<noteq> 62) (drop 4 s)) (lit ''src'')) text"

text \<open>
  The attribute part \<^verbatim>\<open>KEY=["']([^"']+)["'][^>]*>\<close> of the image expressions, anchored:
  the captured value and the rest of the input behind the closing \<^verbatim>\<open>>\<close>.
\<close>

definition is_quote_mark :: "nat \<Rightarrow> bool" where
  "is_quote_mark c = (c = 34 \<or> c = 39)"

definition attr_value :: "jstring \<Rightarrow> jstring \<Rightarrow> (jstring \<times> jstring) option" where
  "attr_value key s =
     (if starts_ci s key
      then (case drop (length key) s of [] \<Rightarrow> None
            | q # r \<Rightarrow>
                if is_quote_mark q
                then (let v = takeWhile (\<lambda>c. \<not> is_quote_mark c) r
                      in if v = [] then None
                         else (case dropWhile (\<lambda>c. \<not> is_quote_mark c) r of [] \<Rightarrow> None
                               | q' # r' \<Rightarrow>
                                   (case after_gt r' of None \<Rightarrow> None
                                    | Some rest \<Rightarrow> Some (v, rest))))
                else None)
      else None)"

text \<open>
  The greedy \<^verbatim>\<open>[^>]*\<close> in front of the attribute runs to the first \<^verbatim>\<open>>\<close> and gives
  back one code unit at a time: the attribute is matched at the last position, at or
  before that \<^verbatim>\<open>>\<close>, where it matches.
\<close>

fun last_attr :: "jstring \<Rightarrow> jstring \<Rightarrow> (jstring \<times> jstring) option" where
  "last_attr key [] = None"
| "last_attr key (c # cs) =
     (if c = 62 then None
      else (case last_attr key cs of
              Some v \<Rightarrow> Some v
            | None \<Rightarrow> attr_value key (c # cs)))"

text \<open>\<^verbatim>\<open>/<img[^>]*KEY=["']([^"']+)["'][^>]*>/i\<close> anchored.\<close>

definition m_img_attr :: "jstring \<Rightarrow> jstring \<Rightarrow> (jstring \<times> jstring) option" where
  "m_img_attr key s = (if starts_ci s (lit ''<img'') then last_attr key (drop 4 s) else None)"

text \<open>\<^verbatim>\<open>text.match(re)\<close>, first capture group: the leftmost position with a match.\<close>

fun first_capture :: "(jstring \<Rightarrow> (jstring \<times> jstring) option) \<Rightarrow> jstring \<Rightarrow> jstring option" where
  "first_capture m [] = None"
| "first_capture m (c # cs) =
     (case m (c # cs) of Some (v, rest) \<Rightarrow> Some v | None \<Rightarrow> first_capture m cs)"

definition extractImageFromParagraph :: "jstring \<Rightarrow> jstring option" where
  "extractImageFromParagraph text = first_capture (m_img_attr (lit ''src='')) text"

definition extractImageAlt :: "jstring \<Rightarrow> jstring option" where
  "extractImageAlt text = first_capture (m_img_attr (lit ''alt='')) text"

text \<open>\<^verbatim>\<open>/<\/?h[1-6][^>]*>/gi\<close> and \<^verbatim>\<open>/<\/?blockquote[^>]*>/gi\<close>.\<close>

definition m_heading_tag :: matcher where
  "m_heading_tag s =
     (case s of [] \<Rightarrow> None
      | c # r \<Rightarrow> if c = 60 \<and> heading_name (opt_slash r) then after_gt (drop 2 (opt_slash r))
                else None)"

definition m_blockquote_tag :: matcher where
  "m_blockquote_tag s =
     (case s of [] \<Rightarrow> None
      | c # r \<Rightarrow> if c = 60 \<and> starts_ci (opt_slash r) (lit ''blockquote'')
                then after_gt (drop 10 (opt_slash r)) else None)"

definition cleanHeadingText :: "jstring \<Rightarrow> jstring" where
  "cleanHeadingText text =
     trim (let t = replace_global m_heading_tag [] text
           in case hash_marker t of None \<Rightarrow> t | Some r \<Rightarrow> r)"

text \<open>\<^verbatim>\<open>/^>\s?/\<close>: a \<^verbatim>\<open>>\<close> at the very start of the string, and one whitespace behind it.\<close>

definition strip_quote_marker :: "jstring \<Rightarrow> jstring" where
  "strip_quote_marker s =
     (case s of [] \<Rightarrow> []
      | c # r \<Rightarrow> if c = 62
                then (case r of [] \<Rightarrow> [] | w # r' \<Rightarrow> if is_ws w then r' else r)
                else s)"

definition cleanQuoteText :: "jstring \<Rightarrow> jstring" where
  "cleanQuoteText text = trim (strip_quote_marker (replace_global m_blockquote_tag [] text))"

definition extractTitle :: "jstring \<Rightarrow> jstring option" where
  "extractTitle text =
     (let lines = filter (\<lambda>line. trim line \<noteq> []) (split_char 10 text)
      in case lines of [] \<Rightarrow> None
         | l0 # ls \<Rightarrow>
             (let firstLine = trim l0
              in case ls of [] \<Rightarrow> None
                 | l1 # ls' \<Rightarrow>
                     if length firstLine < 100 \<and> length l1 > length firstLine
                     then Some firstLine else None))"

section \<open>Segmenting the content\<close>

record chunk =
  chunk_title :: "jstring option"
  chunk_text :: jstring
  chunk_image :: "jstring option"
  chunk_imageAlt :: "jstring option"
  hasImage :: bool
  isQuoteChunk :: bool

record seg_state =
  chunks :: "chunk list"
  currentChunk :: jstring
  chunkWordCount :: nat

definition maxWordsPerSlide :: nat where
  "maxWordsPerSlide = 50"

definition plain_chunk :: "jstring option \<Rightarrow> jstring \<Rightarrow> chunk" where
  "plain_chunk t s =
     \<lparr> chunk_title = t, chunk_text = trim s, chunk_image = None, chunk_imageAlt = None,
       hasImage = False, isQuoteChunk = False \<rparr>"

text \<open>The heading boundary: a heading closes a non-empty buffer.\<close>

definition closeAtHeading :: "jstring \<Rightarrow> seg_state \<Rightarrow> seg_state" where
  "closeAtHeading paragraph st =
     (if isHeading paragraph \<and> currentChunk st \<noteq> []
      then \<lparr> chunks = chunks st @ [plain_chunk None (currentChunk st)],
             currentChunk = [], chunkWordCount = 0 \<rparr>
      else st)"

text \<open>The word budget: a paragraph that would exceed it closes a non-empty buffer.\<close>

definition closeAtBudget :: "jstring \<Rightarrow> seg_state \<Rightarrow> seg_state" where
  "closeAtBudget paragraph st =
     (if chunkWordCount st + length (words_of paragraph) > maxWordsPerSlide \<and> currentChunk st \<noteq> []
      then \<lparr> chunks = chunks st @
               [plain_chunk (if isHeading paragraph then None else extractTitle (currentChunk st))
                  (currentChunk st)],
             currentChunk = [], chunkWordCount = 0 \<rparr>
      else st)"

definition addParagraph :: "jstring \<Rightarrow> seg_state \<Rightarrow> seg_state" where
  "addParagraph paragraph st =
     \<lparr> chunks = chunks st,
       currentChunk = (if currentChunk st \<noteq> [] then currentChunk st @ [10, 10] else currentChunk st)
                      @ paragraph,
       chunkWordCount = chunkWordCount st + length (words_of paragraph) \<rparr>"

text \<open>A quote or an image closes the buffer at once.\<close>

definition closeAtTrigger :: "jstring \<Rightarrow> seg_state \<Rightarrow> seg_state" where
  "closeAtTrigger paragraph st =
     (if isQuote paragraph \<or> hasImageInParagraph paragraph
      then \<lparr> chunks = chunks st @
               [\<lparr> chunk_title = (if isHeading paragraph then Some (cleanHeadingText paragraph) else None),
                  chunk_text = (if isQuote paragraph then cleanQuoteText paragraph
                                else trim (currentChunk st)),
                  chunk_image = (if hasImageInParagraph paragraph
                                 then extractImageFromParagraph paragraph else None),
                  chunk_imageAlt = (if hasImageInParagraph paragraph
                                    then extractImageAlt paragraph else None),
                  hasImage = hasImageInParagraph paragraph,
                  isQuoteChunk = isQuote paragraph \<rparr>],
             currentChunk = [], chunkWordCount = 0 \<rparr>
      else st)"

text \<open>One iteration of the loop over the paragraphs, up to the test for the cap.\<close>

definition segStep :: "seg_state \<Rightarrow> jstring \<Rightarrow> seg_state" where
  "segStep st paragraph =
     closeAtTrigger paragraph
       (addParagraph paragraph (closeAtBudget paragraph (closeAtHeading paragraph st)))"

text \<open>The loop, with its \<^verbatim>\<open>break\<close> once the cap is reached.\<close>

fun segLoop :: "int \<Rightarrow> seg_state \<Rightarrow> jstring list \<Rightarrow> seg_state" where
  "segLoop maxChunks st [] = st"
| "segLoop maxChunks st (paragraph # ps) =
     (let st' = segStep st paragraph
      in if int (length (chunks st')) \<ge> maxChunks then st' else segLoop maxChunks st' ps)"

text \<open>
  \<^verbatim>\<open>xs.slice(0, n)\<close>: the first \<open>n\<close> elements, and for a negative \<open>n\<close> all but the last
  \<open>-n\<close>.
\<close>

definition slice0 :: "'a list \<Rightarrow> int \<Rightarrow> 'a list" where
  "slice0 xs n = (if 0 \<le> n then take (nat n) xs else take (length xs - nat (- n)) xs)"

definition paragraphs_of :: "jstring \<Rightarrow> jstring list" where
  "paragraphs_of cleanContent = filter (\<lambda>p. length (trim p) > 0) (split_rx m_blank2 cleanContent)"

definition init_state :: seg_state where
  "init_state = \<lparr> chunks = [], currentChunk = [], chunkWordCount = 0 \<rparr>"

definition addRemaining :: "int \<Rightarrow> seg_state \<Rightarrow> chunk list" where
  "addRemaining maxChunks st =
     (if trim (currentChunk st) \<noteq> [] \<and> int (length (chunks st)) < maxChunks
      then chunks st @ [plain_chunk None (currentChunk st)]
      else chunks st)"

definition segmentParagraphs :: "jstring list \<Rightarrow> int \<Rightarrow> chunk list" where
  "segmentParagraphs paragraphs maxChunks =
     slice0 (addRemaining maxChunks (segLoop maxChunks init_state paragraphs)) maxChunks"

definition segmentContent :: "jstring \<Rightarrow> int \<Rightarrow> chunk list" where
  "segmentContent htmlContent maxChunks =
     segmentParagraphs (paragraphs_of (cleanHTML htmlContent)) maxChunks"

section \<open>Slide duration\<close>

text \<open>
  A number of the source language is a binary floating-point number with a significand
  of 53 bits. A finite one is kept as the rational it denotes. A product and a sum are
  the exact result rounded to the nearest such number, a tie going to the even
  significand; \<open>fl\<close> is this rounding. The range of the exponents is not bounded
  here: a word count is the length of an array, below \<open>2 ^ 32\<close>, so the numbers of
  \<^verbatim>\<open>calculateSlideDuration\<close> lie between one tenth and \<open>2 ^ 29\<close>, far from overflow and
  from the subnormal numbers.
\<close>

text \<open>The position of the leading bit of a positive integer.\<close>

function ilog2 :: "nat \<Rightarrow> nat" where
  "ilog2 n = (if n < 2 then 0 else Suc (ilog2 (n div 2)))"
  by pat_completeness auto
termination by (relation "measure id") auto

declare ilog2.simps [simp del]

text \<open>The exponent \<open>e\<close> of a positive number \<open>x\<close>, between \<open>2 ^ e\<close> and \<open>2 ^ (e + 1)\<close>.\<close>

definition expo :: "rat \<Rightarrow> int" where
  "expo x = (if 1 \<le> x then int (ilog2 (nat \<lfloor>x\<rfloor>))
             else - int (Suc (ilog2 (nat (\<lceil>1 / x\<rceil> - 1)))))"

text \<open>The nearest integer, a tie going to the even one.\<close>

definition round_even :: "rat \<Rightarrow> int" where
  "round_even q =
     (let f = \<lfloor>q\<rfloor>; r = q - of_int f
      in if r < 1 / 2 then f else if 1 / 2 < r then f + 1 else if even f then f else f + 1)"

text \<open>The distance of two neighbouring floating-point numbers at \<open>x\<close>.\<close>

definition ulp :: "rat \<Rightarrow> rat" where
  "ulp x = 2 powi (expo x - 52)"

definition fl :: "rat \<Rightarrow> rat" where
  "fl x = (if 0 < x then of_int (round_even (x / ulp x)) * ulp x
           else if x < 0 then - (of_int (round_even (- x / ulp (- x))) * ulp (- x))
           else 0)"

definition wordCount :: "jstring \<Rightarrow> nat" where
  "wordCount s = length (words_of s)"

text \<open>
  \<^verbatim>\<open>calculateSlideDuration\<close>. The literal \<^verbatim>\<open>0.1\<close> is the floating-point number nearest to
  one tenth; the word count and \<^verbatim>\<open>3\<close> are floating-point numbers as they are; the product
  and the sum are rounded; \<^verbatim>\<open>Math.max\<close> and \<^verbatim>\<open>Math.min\<close> are exact.
\<close>

definition calculateSlideDuration :: "jstring \<Rightarrow> rat" where
  "calculateSlideDuration s =
     (let wordCount = length (words_of s); baseTime = 3; timePerWord = fl (1 / 10)
      in min (max (fl (baseTime + fl (of_nat wordCount * timePerWord))) 3) 8)"

section \<open>Slides\<close>

datatype slide_type = T_title | T_content | T_image | T_quote | T_cta

datatype align = A_left | A_center | A_right

datatype layout = L_fill | L_fixed | L_intrinsic | L_responsive

record payload =
  sc_title :: "jstring option"
  sc_subtitle :: "jstring option"
  sc_text :: "jstring option"
  sc_image :: "jstring option"
  sc_imageAlt :: "jstring option"
  sc_quote :: "jstring option"
  sc_author :: "jstring option"
  sc_buttonText :: "jstring option"
  sc_buttonUrl :: "jstring option"

text \<open>
  The animation of a generated slide is an element of the template's list, and is absent
  when that list is empty (the read is out of range).
\<close>

record style_fields =
  backgroundColor :: jstring
  textColor :: jstring
  accentColor :: "jstring option"
  fontFamily :: jstring
  animation :: "jstring option"
  duration :: rat
  textAlign :: "align option"

record slide =
  slide_id :: jstring
  slide_type :: slide_type
  slide_content :: payload
  slide_style :: style_fields
  slide_layout :: "layout option"

record config =
  cfg_backgroundColor :: jstring
  cfg_textColor :: jstring
  cfg_accentColor :: jstring
  cfg_fontFamily :: jstring
  cfg_animations :: "jstring list"

record template =
  tmpl_id :: jstring
  tmpl_name :: jstring
  tmpl_category :: jstring
  tmpl_config :: config

record post =
  post_title :: jstring
  post_content :: jstring
  post_excerpt :: "jstring option"
  post_featuredImage :: "jstring option"
  post_categories :: "jstring list"
  post_tags :: "jstring list"
  post_author :: jstring

text \<open>The partial configuration of the options: an absent field keeps the template's value.\<close>

record customizations =
  cust_backgroundColor :: "jstring option"
  cust_textColor :: "jstring option"
  cust_accentColor :: "jstring option"
  cust_fontFamily :: "jstring option"
  cust_animations :: "jstring list option"

record options =
  opt_maxSlides :: "int option"
  opt_includeTitle :: "bool option"
  opt_includeCTA :: "bool option"
  opt_ctaText :: "jstring option"
  opt_ctaUrl :: "jstring option"
  opt_customizations :: customizations

definition empty_content :: payload where
  "empty_content =
     \<lparr> sc_title = None, sc_subtitle = None, sc_text = None, sc_image = None, sc_imageAlt = None,
       sc_quote = None, sc_author = None, sc_buttonText = None, sc_buttonUrl = None \<rparr>"

text \<open>Truthiness of an optional string, and \<^verbatim>\<open>a || b\<close> on such values.\<close>

definition truthy :: "jstring option \<Rightarrow> bool" where
  "truthy x = (case x of None \<Rightarrow> False | Some s \<Rightarrow> s \<noteq> [])"

definition opt_or :: "jstring option \<Rightarrow> jstring option \<Rightarrow> jstring option" where
  "opt_or x y = (if truthy x then x else y)"

definition str_or :: "jstring option \<Rightarrow> jstring \<Rightarrow> jstring" where
  "str_or x y = (case x of None \<Rightarrow> y | Some s \<Rightarrow> if s \<noteq> [] then s else y)"

definition default_to :: "'a option \<Rightarrow> 'a \<Rightarrow> 'a" where
  "default_to x d = (case x of None \<Rightarrow> d | Some v \<Rightarrow> v)"

text \<open>\<^verbatim>\<open>{ ...this.template.config, ...customizations }\<close>.\<close>

definition merge_config :: "config \<Rightarrow> customizations \<Rightarrow> config" where
  "merge_config c k =
     \<lparr> cfg_backgroundColor = default_to (cust_backgroundColor k) (cfg_backgroundColor c),
       cfg_textColor = default_to (cust_textColor k) (cfg_textColor c),
       cfg_accentColor = default_to (cust_accentColor k) (cfg_accentColor c),
       cfg_fontFamily = default_to (cust_fontFamily k) (cfg_fontFamily c),
       cfg_animations = default_to (cust_animations k) (cfg_animations c) \<rparr>"

text \<open>
  \<^verbatim>\<open>animations[Math.floor(Math.random() * animations.length)]\<close>, with the value \<open>u\<close>
  that \<^verbatim>\<open>Math.random()\<close> returned. A read outside the list gives no animation.
\<close>

definition getRandomAnimation :: "rat \<Rightarrow> jstring list \<Rightarrow> jstring option" where
  "getRandomAnimation u animations =
     (let i = \<lfloor>u * of_nat (length animations)\<rfloor>
      in if 0 \<le> i \<and> nat i < length animations then Some (animations ! nat i) else None)"

text \<open>The excerpt of a post without one.\<close>

definition is_sentence_end :: "nat \<Rightarrow> bool" where
  "is_sentence_end c = (c = 46 \<or> c = 33 \<or> c = 63)"

fun excerptLoop :: "nat \<Rightarrow> jstring \<Rightarrow> jstring list \<Rightarrow> jstring" where
  "excerptLoop maxLength excerpt [] = excerpt"
| "excerptLoop maxLength excerpt (sentence # ss) =
     (if length (excerpt @ sentence) > maxLength then excerpt
      else excerptLoop maxLength (excerpt @ sentence @ lit ''. '') ss)"

definition generateExcerpt :: "jstring \<Rightarrow> nat \<Rightarrow> jstring" where
  "generateExcerpt content maxLength =
     (let cleanContent = cleanHTML content;
          sentences = filter (\<lambda>s. length (trim s) > 0) (split_on is_sentence_end cleanContent);
          excerpt = excerptLoop maxLength [] sentences
      in if trim excerpt \<noteq> [] then trim excerpt else take maxLength cleanContent @ lit ''...'')"

definition createTitleSlide :: "rat \<Rightarrow> post \<Rightarrow> config \<Rightarrow> slide" where
  "createTitleSlide u postData config =
     \<lparr> slide_id = lit ''1'',
       slide_type = T_title,
       slide_content = empty_content
         \<lparr> sc_title := Some (post_title postData),
           sc_subtitle := Some (str_or (post_excerpt postData)
                                  (generateExcerpt (post_content postData) 160)),
           sc_image := post_featuredImage postData \<rparr>,
       slide_style =
         \<lparr> backgroundColor = cfg_backgroundColor config,
           textColor = cfg_textColor config,
           accentColor = Some (cfg_accentColor config),
           fontFamily = cfg_fontFamily config,
           animation = getRandomAnimation u (cfg_animations config),
           duration = 6,
           textAlign = Some A_center \<rparr>,
       slide_layout = Some L_fill \<rparr>"

text \<open>
  \<^verbatim>\<open>/<img[^>]+src=["']([^"']+)["'][^>]*>/gi\<close> run with \<^verbatim>\<open>exec\<close> until it fails: the
  captures of the successive matches over the raw content. The \<^verbatim>\<open>[^>]+\<close> needs one
  code unit in front of the attribute.
\<close>

definition m_img_src1 :: "jstring \<Rightarrow> (jstring \<times> jstring) option" where
  "m_img_src1 s =
     (if starts_ci s (lit ''<img'')
      then (case drop 4 s of [] \<Rightarrow> None
            | c # r \<Rightarrow> if c = 62 then None else last_attr (lit ''src='') r)
      else None)"

function extractImages :: "jstring \<Rightarrow> jstring list" where
  "extractImages [] = []"
| "extractImages (c # cs) =
     (case (case m_img_src1 (c # cs) of None \<Rightarrow> None
            | Some (v, rest) \<Rightarrow> if length rest \<le> length cs then Some (v, rest) else None) of
        Some (v, rest) \<Rightarrow> v # extractImages rest
      | None \<Rightarrow> extractImages cs)"
  by pat_completeness auto
termination
  by (relation "measure length") (auto split: option.splits if_splits)

text \<open>\<^verbatim>\<open>getVariantColor\<close>: a gradient rotates through four angles.\<close>

definition getVariantColor :: "jstring \<Rightarrow> nat \<Rightarrow> jstring" where
  "getVariantColor baseColor index =
     (if js_includes baseColor (lit ''gradient'')
      then [baseColor,
            replace_first (m_lit (lit ''135deg'')) (lit ''45deg'') baseColor,
            replace_first (m_lit (lit ''135deg'')) (lit ''225deg'') baseColor,
            replace_first (m_lit (lit ''135deg'')) (lit ''315deg'') baseColor] ! (index mod 4)
      else baseColor)"

text \<open>\<^verbatim>\<open>n.toString()\<close> for a natural number.\<close>

function toString :: "nat \<Rightarrow> jstring" where
  "toString n = (if n < 10 then [48 + n] else toString (n div 10) @ [48 + n mod 10])"
  by pat_completeness auto
termination
  by (relation "measure id") auto

text \<open>\<^verbatim>\<open>chunk.image || (images[index % images.length] || undefined)\<close>.\<close>

definition slideImage :: "chunk \<Rightarrow> jstring list \<Rightarrow> nat \<Rightarrow> jstring option" where
  "slideImage chunk images index =
     (if truthy (chunk_image chunk) then chunk_image chunk
      else if images = [] then None
      else if images ! (index mod length images) \<noteq> [] then Some (images ! (index mod length images))
      else None)"

definition slideTypeOf :: "chunk \<Rightarrow> jstring list \<Rightarrow> slide_type" where
  "slideTypeOf chunk images =
     (if isQuoteChunk chunk then T_quote
      else if hasImage chunk \<and> length images > 0 then T_image
      else T_content)"

text \<open>The body of the \<^verbatim>\<open>forEach\<close> of \<^verbatim>\<open>createContentSlides\<close>.\<close>

definition contentSlide :: "rat \<Rightarrow> post \<Rightarrow> config \<Rightarrow> jstring list \<Rightarrow> nat \<Rightarrow> chunk \<Rightarrow> slide" where
  "contentSlide u postData config images index chunk =
     (let slideId = toString (index + 2);
          slideType = slideTypeOf chunk images
      in \<lparr> slide_id = slideId,
           slide_type = slideType,
           slide_content = empty_content
             \<lparr> sc_title := chunk_title chunk,
               sc_text := Some (chunk_text chunk),
               sc_image := slideImage chunk images index,
               sc_imageAlt := chunk_imageAlt chunk,
               sc_quote := (if isQuoteChunk chunk then Some (chunk_text chunk) else None),
               sc_author := (if isQuoteChunk chunk then Some (post_author postData) else None) \<rparr>,
           slide_style =
             \<lparr> backgroundColor = getVariantColor (cfg_backgroundColor config) index,
               textColor = cfg_textColor config,
               accentColor = Some (cfg_accentColor config),
               fontFamily = cfg_fontFamily config,
               animation = getRandomAnimation u (cfg_animations config),
               duration = calculateSlideDuration (chunk_text chunk),
               textAlign = Some (if slideType = T_quote then A_center else A_left) \<rparr>,
           slide_layout = Some (if slideType = T_image then L_fill else L_responsive) \<rparr>)"

text \<open>\<^verbatim>\<open>xs.forEach((x, index) => ...)\<close> collecting one result for each element.\<close>

fun map_index :: "(nat \<Rightarrow> 'a \<Rightarrow> 'b) \<Rightarrow> nat \<Rightarrow> 'a list \<Rightarrow> 'b list" where
  "map_index f i [] = []"
| "map_index f i (x # xs) = f i x # map_index f (Suc i) xs"

text \<open>
  \<open>random k\<close> is the value of the \<open>k\<close>-th call of \<^verbatim>\<open>Math.random()\<close> made while the
  content slides are built.
\<close>

definition createContentSlides :: "(nat \<Rightarrow> rat) \<Rightarrow> post \<Rightarrow> config \<Rightarrow> int \<Rightarrow> slide list" where
  "createContentSlides random postData config maxSlides =
     (let contentChunks = segmentContent (post_content postData) maxSlides;
          images = extractImages (post_content postData);
          slides = map_index (\<lambda>index chunk. contentSlide (random index) postData config images index chunk)
                     0 contentChunks
      in slice0 slides maxSlides)"

definition createCTASlide :: "post \<Rightarrow> config \<Rightarrow> jstring \<Rightarrow> jstring \<Rightarrow> slide" where
  "createCTASlide postData config ctaText ctaUrl =
     \<lparr> slide_id = lit ''cta'',
       slide_type = T_cta,
       slide_content = empty_content
         \<lparr> sc_title := Some (lit ''Learn More About '' @ post_title postData),
           sc_subtitle := Some (lit ''Continue reading the full article for more insights''),
           sc_buttonText := Some ctaText,
           sc_buttonUrl := Some ctaUrl \<rparr>,
       slide_style =
         \<lparr> backgroundColor = (if cfg_accentColor config \<noteq> [] then cfg_accentColor config
                              else cfg_backgroundColor config),
           textColor = cfg_textColor config,
           accentColor = Some (cfg_backgroundColor config),
           fontFamily = cfg_fontFamily config,
           animation = Some (lit ''zoom''),
           duration = 5,
           textAlign = Some A_center \<rparr>,
       slide_layout = Some L_fill \<rparr>"

text \<open>
  \<^verbatim>\<open>generateStory\<close> of a generator built on \<open>tmpl\<close>. \<open>random k\<close> is the value of the
  \<open>k\<close>-th call of \<^verbatim>\<open>Math.random()\<close> during the call: the title slide, when there is one,
  makes the first call, and each content slide makes one.
\<close>

definition generateStory :: "template \<Rightarrow> (nat \<Rightarrow> rat) \<Rightarrow> post \<Rightarrow> options \<Rightarrow> slide list" where
  "generateStory tmpl random postData opts =
     (let maxSlides = default_to (opt_maxSlides opts) 10;
          includeTitle = default_to (opt_includeTitle opts) True;
          includeCTA = default_to (opt_includeCTA opts) True;
          ctaText = default_to (opt_ctaText opts) (lit ''Read Full Article'');
          ctaUrl = default_to (opt_ctaUrl opts) (lit ''#'');
          config = merge_config (tmpl_config tmpl) (opt_customizations opts);
          slides = (if includeTitle then [createTitleSlide (random 0) postData config] else []);
          contentSlides = createContentSlides (\<lambda>k. random (k + (if includeTitle then 1 else 0)))
                            postData config
                            (maxSlides - (if includeTitle then 1 else 0) - (if includeCTA then 1 else 0));
          slides = slides @ contentSlides;
          slides = (if includeCTA then slides @ [createCTASlide postData config ctaText ctaUrl]
                    else slides)
      in slides)"

section \<open>Rendering\<close>

text \<open>
  What the renderer takes from its host: \<^verbatim>\<open>escapeHTML\<close> writes the string into a
  detached element of the browser's document and reads its serialisation back, and the
  document shell carries the time of the call.
\<close>

record host =
  escapeHTML :: "jstring \<Rightarrow> jstring"
  toISOString_now :: jstring

record metadata =
  md_title :: jstring
  md_description :: jstring
  md_author :: jstring
  publisherName :: jstring
  publisherLogo :: jstring
  canonicalUrl :: jstring

definition escapeJSON :: "jstring \<Rightarrow> jstring" where
  "escapeJSON str =
     replace_global (m_lit [13]) [92, 114]
       (replace_global (m_lit [10]) [92, 110]
          (replace_global (m_lit [34]) [92, 34] str))"

text \<open>
  The text a template literal inserts for an optional field. Every such insertion of the
  renderer is guarded by the truthiness of the field.
\<close>

definition interp :: "jstring option \<Rightarrow> jstring" where
  "interp x = (case x of None \<Rightarrow> lit ''undefined'' | Some s \<Rightarrow> s)"

definition align_str :: "align \<Rightarrow> jstring" where
  "align_str a = (case a of A_left \<Rightarrow> lit ''left'' | A_center \<Rightarrow> lit ''center'' | A_right \<Rightarrow> lit ''right'')"

definition align_or :: "align option \<Rightarrow> jstring \<Rightarrow> jstring" where
  "align_or a d = (case a of None \<Rightarrow> d | Some v \<Rightarrow> align_str v)"

fun join :: "jstring \<Rightarrow> jstring list \<Rightarrow> jstring" where
  "join sep [] = []"
| "join sep [x] = x"
| "join sep (x # y # ys) = x @ sep @ join sep (y # ys)"

definition posterImage :: "slide list \<Rightarrow> metadata \<Rightarrow> jstring" where
  "posterImage slides metadata =
     (case slides of [] \<Rightarrow> publisherLogo metadata
      | s # ss \<Rightarrow> str_or (sc_image (slide_content s)) (publisherLogo metadata))"

definition generateTitleSlideAMP :: "host \<Rightarrow> slide \<Rightarrow> jstring" where
  \<open>generateTitleSlideAMP h slide =
     concat
      [lit ''\<newline>'',
       lit ''        <div class="story-title-container" style="text-align: '',
       align_or (textAlign (slide_style slide)) (lit ''center''),
       lit ''; color: '',
       textColor (slide_style slide),
       lit ''; font-family: '',
       fontFamily (slide_style slide),
       lit '';">\<newline>'',
       lit ''          <h1 style="font-size: 2.5em; margin-bottom: 0.5em; line-height: 1.2;">\<newline>'',
       lit ''            '',
       escapeHTML h (str_or (sc_title (slide_content slide)) []),
       lit ''\<newline>'',
       lit ''          </h1>\<newline>'',
       lit ''          '',
       (if truthy (sc_subtitle (slide_content slide)) then concat
         [lit ''\<newline>'',
          lit ''          <p style="font-size: 1.2em; opacity: 0.9; line-height: 1.4;">\<newline>'',
          lit ''            '',
          escapeHTML h (interp (sc_subtitle (slide_content slide))),
          lit ''\<newline>'',
          lit ''          </p>'']
       else []),
       lit ''\<newline>'',
       lit ''        </div>'']\<close>

definition generateContentSlideAMP :: "host \<Rightarrow> slide \<Rightarrow> jstring" where
  \<open>generateContentSlideAMP h slide =
     concat
      [lit ''\<newline>'',
       lit ''        <div class="story-content-container" style="color: '',
       textColor (slide_style slide),
       lit ''; font-family: '',
       fontFamily (slide_style slide),
       lit '';">\<newline>'',
       lit ''          '',
       (if truthy (sc_title (slide_content slide)) then concat
         [lit ''\<newline>'',
          lit ''          <h2 style="font-size: 1.8em; margin-bottom: 1em; color: '',
          str_or (accentColor (slide_style slide)) (textColor (slide_style slide)),
          lit '';">\<newline>'',
          lit ''            '',
          escapeHTML h (interp (sc_title (slide_content slide))),
          lit ''\<newline>'',
          lit ''          </h2>'']
       else []),
       lit ''\<newline>'',
       lit ''          <div style="font-size: 1.1em; line-height: 1.6; text-align: '',
       align_or (textAlign (slide_style slide)) (lit ''left''),
       lit '';">\<newline>'',
       lit ''            '',
       replace_global (m_lit [10]) (lit ''<br>'') (escapeHTML h (str_or (sc_text (slide_content slide)) [])),
       lit ''\<newline>'',
       lit ''          </div>\<newline>'',
       lit ''        </div>'']\<close>

definition generateImageSlideAMP :: "host \<Rightarrow> slide \<Rightarrow> jstring" where
  \<open>generateImageSlideAMP h slide =
     concat
      [lit ''\<newline>'',
       lit ''        '',
       (if truthy (sc_image (slide_content slide)) then concat
         [lit ''\<newline>'',
          lit ''        <amp-img src="'',
          interp (sc_image (slide_content slide)),
          lit ''"\<newline>'',
          lit ''                 alt="'',
          escapeHTML h (str_or (sc_imageAlt (slide_content slide)) []),
          lit ''"\<newline>'',
          lit ''                 layout="fill"\<newline>'',
          lit ''                 object-fit="cover">\<newline>'',
          lit ''        </amp-img>'']
       else []),
       lit ''\<newline>'',
       lit ''        <div class="story-image-overlay" style="background: linear-gradient(transparent, rgba(0,0,0,0.7)); color: '',
       textColor (slide_style slide),
       lit ''; font-family: '',
       fontFamily (slide_style slide),
       lit '';">\<newline>'',
       lit ''          '',
       (if truthy (sc_title (slide_content slide)) then concat
         [lit ''\<newline>'',
          lit ''          <h2 style="font-size: 1.8em; margin-bottom: 0.5em;">\<newline>'',
          lit ''            '',
          escapeHTML h (interp (sc_title (slide_content slide))),
          lit ''\<newline>'',
          lit ''          </h2>'']
       else []),
       lit ''\<newline>'',
       lit ''          '',
       (if truthy (sc_text (slide_content slide)) then concat
         [lit ''\<newline>'',
          lit ''          <p style="font-size: 1.1em; line-height: 1.5;">\<newline>'',
          lit ''            '',
          escapeHTML h (interp (sc_text (slide_content slide))),
          lit ''\<newline>'',
          lit ''          </p>'']
       else []),
       lit ''\<newline>'',
       lit ''        </div>'']\<close>

definition generateQuoteSlideAMP :: "host \<Rightarrow> slide \<Rightarrow> jstring" where
  \<open>generateQuoteSlideAMP h slide =
     concat
      [lit ''\<newline>'',
       lit ''        <div class="story-quote-container" style="text-align: center; color: '',
       textColor (slide_style slide),
       lit ''; font-family: '',
       fontFamily (slide_style slide),
       lit '';">\<newline>'',
       lit ''          <blockquote style="font-size: 1.5em; line-height: 1.4; margin: 0; font-style: italic;">\<newline>'',
       lit ''            "'',
       escapeHTML h (str_or (opt_or (sc_quote (slide_content slide)) (sc_text (slide_content slide))) []),
       lit ''"\<newline>'',
       lit ''          </blockquote>\<newline>'',
       lit ''          '',
       (if truthy (sc_author (slide_content slide)) then concat
         [lit ''\<newline>'',
          lit ''          <cite style="display: block; margin-top: 1em; font-size: 1em; opacity: 0.8;">\<newline>'',
          lit ''            '',
          [8212],
          lit '' '',
          escapeHTML h (interp (sc_author (slide_content slide))),
          lit ''\<newline>'',
          lit ''          </cite>'']
       else []),
       lit ''\<newline>'',
       lit ''        </div>'']\<close>

definition generateCTASlideAMP :: "host \<Rightarrow> slide \<Rightarrow> jstring" where
  \<open>generateCTASlideAMP h slide =
     concat
      [lit ''\<newline>'',
       lit ''        <div class="story-cta-container" style="text-align: center; color: '',
       textColor (slide_style slide),
       lit ''; font-family: '',
       fontFamily (slide_style slide),
       lit '';">\<newline>'',
       lit ''          <h2 style="font-size: 2em; margin-bottom: 0.5em;">\<newline>'',
       lit ''            '',
       escapeHTML h (str_or (sc_title (slide_content slide)) []),
       lit ''\<newline>'',
       lit ''          </h2>\<newline>'',
       lit ''          '',
       (if truthy (sc_subtitle (slide_content slide)) then concat
         [lit ''\<newline>'',
          lit ''          <p style="font-size: 1.2em; margin-bottom: 2em; opacity: 0.9;">\<newline>'',
          lit ''            '',
          escapeHTML h (interp (sc_subtitle (slide_content slide))),
          lit ''\<newline>'',
          lit ''          </p>'']
       else []),
       lit ''\<newline>'',
       lit ''          '',
       (if truthy (sc_buttonUrl (slide_content slide)) then concat
         [lit ''\<newline>'',
          lit ''          <a href="'',
          interp (sc_buttonUrl (slide_content slide)),
          lit ''" \<newline>'',
          lit ''             style="display: inline-block; background: '',
          str_or (accentColor (slide_style slide)) (textColor (slide_style slide)),
          lit ''; color: '',
          backgroundColor (slide_style slide),
          lit ''; padding: 1em 2em; text-decoration: none; border-radius: 2em; font-weight: bold;">\<newline>'',
          lit ''            '',
          escapeHTML h (str_or (sc_buttonText (slide_content slide)) (lit ''Learn More'')),
          lit ''\<newline>'',
          lit ''          </a>'']
       else []),
       lit ''\<newline>'',
       lit ''        </div>'']\<close>

text \<open>The page around the fragment of a slide.\<close>

definition slidePageAMP :: "jstring \<Rightarrow> slide \<Rightarrow> jstring \<Rightarrow> jstring" where
  \<open>slidePageAMP slideId slide slideContent =
     concat
      [lit ''\<newline>'',
       lit ''    <amp-story-page id="'',
       slideId,
       lit ''">\<newline>'',
       lit ''      <amp-story-grid-layer template="fill" style="background: '',
       backgroundColor (slide_style slide),
       lit '';">\<newline>'',
       lit ''      </amp-story-grid-layer>\<newline>'',
       lit ''      <amp-story-grid-layer template="vertical">\<newline>'',
       lit ''        '',
       slideContent,
       lit ''\<newline>'',
       lit ''      </amp-story-grid-layer>\<newline>'',
       lit ''    </amp-story-page>'']\<close>

definition generateSlideAMP :: "host \<Rightarrow> slide \<Rightarrow> nat \<Rightarrow> jstring" where
  "generateSlideAMP h slide index =
     (let slideId = lit ''slide-'' @ slide_id slide;
          slideContent =
            (case slide_type slide of
               T_title \<Rightarrow> generateTitleSlideAMP h slide
             | T_content \<Rightarrow> generateContentSlideAMP h slide
             | T_image \<Rightarrow> generateImageSlideAMP h slide
             | T_quote \<Rightarrow> generateQuoteSlideAMP h slide
             | T_cta \<Rightarrow> generateCTASlideAMP h slide)
      in slidePageAMP slideId slide slideContent)"

text \<open>
  The document shell, before the final \<^verbatim>\<open>trim()\<close>: the pieces of the template
  literal, the fixed text line by line and the interpolated values, in order.
\<close>

definition document_parts :: "host \<Rightarrow> slide list \<Rightarrow> metadata \<Rightarrow> jstring list" where
  \<open>document_parts h slides metadata =
      [lit ''\<newline>'',
       lit ''<!doctype html>\<newline>'',
       lit ''<html '',
       [9889],
       lit '' lang="en">\<newline>'',
       lit ''<head>\<newline>'',
       lit ''  <meta charset="utf-8">\<newline>'',
       lit ''  <title>'',
       escapeHTML h (md_title metadata),
       lit ''</title>\<newline>'',
       lit ''  <link rel="canonical" href="'',
       canonicalUrl metadata,
       lit ''">\<newline>'',
       lit ''  <meta name="viewport" content="width=device-width,minimum-scale=1,initial-scale=1">\<newline>'',
       lit ''  <meta name="description" content="'',
       escapeHTML h (md_description metadata),
       lit ''">\<newline>'',
       lit ''  \<newline>'',
       lit ''  <!-- Web Stories specific meta -->\<newline>'',
       lit ''  <meta property="og:type" content="article">\<newline>'',
       lit ''  <meta property="og:title" content="'',
       escapeHTML h (md_title metadata),
       lit ''">\<newline>'',
       lit ''  <meta property="og:description" content="'',
       escapeHTML h (md_description metadata),
       lit ''">\<newline>'',
       lit ''  \<newline>'',
       lit ''  <!-- AMP boilerplate -->\<newline>'',
       lit ''  <style amp-boilerplate>body{-webkit-animation:-amp-start 8s steps(1,end) 0s 1 normal both;-moz-animation:-amp-start 8s steps(1,end) 0s 1 normal both;-ms-animation:-amp-start 8s steps(1,end) 0s 1 normal both;animation:-amp-start 8s steps(1,end) 0s 1 normal both}@-webkit-keyframes -amp-start{from{visibility:hidden}to{visibility:visible}}@-moz-keyframes -amp-start{from{visibility:hidden}to{visibility:visible}}@-ms-keyframes -amp-start{from{visibility:hidden}to{visibility:visible}}@-o-keyframes -amp-start{from{visibility:hidden}to{visibility:visible}}@keyframes -amp-start{from{visibility:hidden}to{visibility:visible}}</style><noscript><style amp-boilerplate>body{-webkit-animation:none;-moz-animation:none;-ms-animation:none;animation:none}</style></noscript>\<newline>'',
       lit ''  \<newline>'',
       lit ''  <!-- AMP Web Story -->\<newline>'',
       lit ''  <script async src="https://cdn.ampproject.org/v0.js"></script>\<newline>'',
       lit ''  <script async custom-element="amp-story" src="https://cdn.ampproject.org/v0/amp-story-1.0.js"></script>\<newline>'',
       lit ''  <script async custom-element="amp-story-auto-ads" src="https://cdn.ampproject.org/v0/amp-story-auto-ads-0.1.js"></script>\<newline>'',
       lit ''  \<newline>'',
       lit ''  <!-- JSON-LD structured data -->\<newline>'',
       lit ''  <script type="application/ld+json">\<newline>'',
       lit ''  {\<newline>'',
       lit ''    "@context": "http://schema.org",\<newline>'',
       lit ''    "@type": "Article",\<newline>'',
       lit ''    "headline": "'',
       escapeJSON (md_title metadata),
       lit ''",\<newline>'',
       lit ''    "description": "'',
       escapeJSON (md_description metadata),
       lit ''",\<newline>'',
       lit ''    "author": {\<newline>'',
       lit ''      "@type": "Person",\<newline>'',
       lit ''      "name": "'',
       escapeJSON (md_author metadata),
       lit ''"\<newline>'',
       lit ''    },\<newline>'',
       lit ''    "publisher": {\<newline>'',
       lit ''      "@type": "Organization",\<newline>'',
       lit ''      "name": "'',
       escapeJSON (publisherName metadata),
       lit ''",\<newline>'',
       lit ''      "logo": {\<newline>'',
       lit ''        "@type": "ImageObject",\<newline>'',
       lit ''        "url": "'',
       publisherLogo metadata,
       lit ''"\<newline>'',
       lit ''      }\<newline>'',
       lit ''    },\<newline>'',
       lit ''    "url": "'',
       canonicalUrl metadata,
       lit ''",\<newline>'',
       lit ''    "datePublished": "'',
       toISOString_now h,
       lit ''"\<newline>'',
       lit ''  }\<newline>'',
       lit ''  </script>\<newline>'',
       lit ''</head>\<newline>'',
       lit ''\<newline>'',
       lit ''<body>\<newline>'',
       lit ''  <amp-story standalone\<newline>'',
       lit ''            title="'',
       escapeHTML h (md_title metadata),
       lit ''"\<newline>'',
       lit ''            publisher="'',
       escapeHTML h (publisherName metadata),
       lit ''"\<newline>'',
       lit ''            publisher-logo-src="'',
       publisherLogo metadata,
       lit ''"\<newline>'',
       lit ''            poster-portrait-src="'',
       posterImage slides metadata,
       lit ''">\<newline>'',
       lit ''    \<newline>'',
       lit ''    '',
       join [10] (map_index (\<lambda>index slide. generateSlideAMP h slide index) 0 slides),
       lit ''\<newline>'',
       lit ''    \<newline>'',
       lit ''    <!-- Auto ads (optional) -->\<newline>'',
       lit ''    <amp-story-auto-ads>\<newline>'',
       lit ''      <script type="application/json">\<newline>'',
       lit ''      {\<newline>'',
       lit ''        "ad-attributes": {\<newline>'',
       lit ''          "type": "doubleclick",\<newline>'',
       lit ''          "data-slot": "/30497360/a4a/amp_story_dfp_example"\<newline>'',
       lit ''        }\<newline>'',
       lit ''      }\<newline>'',
       lit ''      </script>\<newline>'',
       lit ''    </amp-story-auto-ads>\<newline>'',
       lit ''  </amp-story>\<newline>'',
       lit ''</body>\<newline>'',
       lit ''</html>'']\<close>

definition documentAMP :: "host \<Rightarrow> slide list \<Rightarrow> metadata \<Rightarrow> jstring" where
  "documentAMP h slides metadata = concat (document_parts h slides metadata)"

definition generateAMPHTML :: "host \<Rightarrow> slide list \<Rightarrow> metadata \<Rightarrow> jstring" where
  "generateAMPHTML h slides metadata = trim (documentAMP h slides metadata)"

section \<open>Validation of a rendered document\<close>

record validation =
  isValid :: bool
  errors :: "jstring list"
  warnings :: "jstring list"

text \<open>The lightning sign U+26A1 of the \<^verbatim>\<open>html\<close> tag.\<close>

definition zap :: jstring where
  "zap = [9889]"

definition validateAMPHTML :: "jstring \<Rightarrow> validation" where
  "validateAMPHTML ampHTML =
     (let errors0 = [];
          warnings0 = [];
          errors1 = (if \<not> js_includes ampHTML zap \<and> \<not> js_includes ampHTML (lit ''amp'')
                     then errors0 @ [lit ''Missing AMP attribute in html tag''] else errors0);
          errors2 = (if \<not> js_includes ampHTML (lit ''amp-story'')
                     then errors1 @ [lit ''Missing amp-story component''] else errors1);
          warnings1 = (if \<not> js_includes ampHTML (lit ''application/ld+json'')
                     then warnings0 @ [lit ''Missing structured data (JSON-LD)''] else warnings0);
          errors3 = (if \<not> js_includes ampHTML (lit ''viewport'')
                     then errors2 @ [lit ''Missing viewport meta tag''] else errors2);
          warnings2 = (if \<not> js_includes ampHTML (lit ''canonical'')
                     then warnings1 @ [lit ''Missing canonical URL''] else warnings1)
      in \<lparr> isValid = (length errors3 = 0), errors = errors3, warnings = warnings2 \<rparr>)"

section \<open>Auxiliary notions\<close>

text \<open>The shape of the story: the title slide, the content slides, the closing slide.\<close>

definition titlePart :: "template \<Rightarrow> (nat \<Rightarrow> rat) \<Rightarrow> post \<Rightarrow> options \<Rightarrow> slide list" where
  "titlePart tmpl random postData opts =
     (if default_to (opt_includeTitle opts) True
      then [createTitleSlide (random 0) postData
              (merge_config (tmpl_config tmpl) (opt_customizations opts))]
      else [])"

definition ctaPart :: "template \<Rightarrow> post \<Rightarrow> options \<Rightarrow> slide list" where
  "ctaPart tmpl postData opts =
     (if default_to (opt_includeCTA opts) True
      then [createCTASlide postData (merge_config (tmpl_config tmpl) (opt_customizations opts))
              (default_to (opt_ctaText opts) (lit ''Read Full Article''))
              (default_to (opt_ctaUrl opts) (lit ''#''))]
      else [])"

definition contentPart :: "template \<Rightarrow> (nat \<Rightarrow> rat) \<Rightarrow> post \<Rightarrow> options \<Rightarrow> slide list" where
  "contentPart tmpl random postData opts =
     createContentSlides (\<lambda>k. random (k + (if default_to (opt_includeTitle opts) True then 1 else 0)))
       postData (merge_config (tmpl_config tmpl) (opt_customizations opts))
       (default_to (opt_maxSlides opts) 10
          - (if default_to (opt_includeTitle opts) True then 1 else 0)
          - (if default_to (opt_includeCTA opts) True then 1 else 0))"

text \<open>A paragraph that survives the filter of the segmenter.\<close>

definition nonblank :: "jstring \<Rightarrow> bool" where
  "nonblank s = (trim s \<noteq> [])"

text \<open>
  What the segmenter maintains, relative to the set \<open>P\<close> of the paragraphs of the content.
  The open buffer is empty with a count of zero, or it is not blank, its count is its
  number of words, and it is within the budget or is a single paragraph. A closed chunk
  is a quote holding one cleaned paragraph, or its text is within the budget or is a
  single trimmed paragraph.
\<close>

definition buffer_ok :: "jstring set \<Rightarrow> seg_state \<Rightarrow> bool" where
  "buffer_ok P st =
     ((currentChunk st = [] \<and> chunkWordCount st = 0)
      \<or> (nonblank (currentChunk st) \<and> wordCount (currentChunk st) = chunkWordCount st
          \<and> (chunkWordCount st \<le> maxWordsPerSlide \<or> currentChunk st \<in> P)))"

definition chunk_ok :: "jstring set \<Rightarrow> chunk \<Rightarrow> bool" where
  "chunk_ok P c =
     (if isQuoteChunk c then (\<exists>p \<in> P. isQuote p \<and> chunk_text c = cleanQuoteText p)
      else wordCount (chunk_text c) \<le> maxWordsPerSlide \<or> (\<exists>p \<in> P. chunk_text c = trim p))"

definition seg_inv :: "jstring set \<Rightarrow> seg_state \<Rightarrow> bool" where
  "seg_inv P st = (buffer_ok P st \<and> (\<forall>c \<in> set (chunks st). chunk_ok P c))"

text \<open>The paragraph fits into the open buffer.\<close>

definition budget_room :: "jstring \<Rightarrow> seg_state \<Rightarrow> bool" where
  "budget_room p st =
     (currentChunk st \<noteq> [] \<longrightarrow> chunkWordCount st + wordCount p \<le> maxWordsPerSlide)"

text \<open>A paragraph that triggers nothing: no heading, no quote, no image.\<close>

definition plain_paragraph :: "jstring \<Rightarrow> bool" where
  "plain_paragraph p = (\<not> isHeading p \<and> \<not> isQuote p \<and> \<not> hasImageInParagraph p)"

text \<open>The chunk a quote paragraph closes.\<close>

definition quote_chunk :: "jstring \<Rightarrow> chunk" where
  "quote_chunk q =
     \<lparr> chunk_title = (if isHeading q then Some (cleanHeadingText q) else None),
       chunk_text = cleanQuoteText q,
       chunk_image = (if hasImageInParagraph q then extractImageFromParagraph q else None),
       chunk_imageAlt = (if hasImageInParagraph q then extractImageAlt q else None),
       hasImage = hasImageInParagraph q,
       isQuoteChunk = True \<rparr>"

text \<open>
  The segmenter without its cap: every paragraph takes its step, and the buffer that is
  left over is closed as the last chunk.
\<close>

definition withRemainder :: "seg_state \<Rightarrow> chunk list" where
  "withRemainder st =
     chunks st @ (if trim (currentChunk st) \<noteq> [] then [plain_chunk None (currentChunk st)] else [])"

definition segmentAll :: "jstring list \<Rightarrow> chunk list" where
  "segmentAll ps = withRemainder (foldl segStep init_state ps)"

text \<open>The clamp of the specification, and the duration as a function of the word count.\<close>

definition clamp :: "rat \<Rightarrow> rat \<Rightarrow> rat \<Rightarrow> rat" where
  "clamp x lo hi = min (max x lo) hi"

definition seconds :: "nat \<Rightarrow> rat" where
  "seconds n = clamp (fl (3 + fl (of_nat n * fl (1 / 10)))) 3 8"

text \<open>A text none of the expressions of the cleaning pass can match in.\<close>

definition markup_free :: "jstring \<Rightarrow> bool" where
  "markup_free s = (60 \<notin> set s \<and> 38 \<notin> set s \<and> 10 \<notin> set s)"

section \<open>Example data\<close>

definition ex_template :: template where
  "ex_template =
     \<lparr> tmpl_id = lit ''modern'', tmpl_name = lit ''Modern'', tmpl_category = lit ''general'',
       tmpl_config =
         \<lparr> cfg_backgroundColor = lit ''#112233'', cfg_textColor = lit ''#ffffff'',
           cfg_accentColor = lit ''#ff0000'', cfg_fontFamily = lit ''Inter'',
           cfg_animations = [lit ''fade-in''] \<rparr> \<rparr>"

definition ex_random :: "nat \<Rightarrow> rat" where
  "ex_random k = 0"

definition ex_post :: "jstring \<Rightarrow> post" where
  "ex_post c =
     \<lparr> post_title = lit ''Hello World'', post_content = c, post_excerpt = None,
       post_featuredImage = None, post_categories = [], post_tags = [],
       post_author = lit ''Ada'' \<rparr>"

definition no_customizations :: customizations where
  "no_customizations =
     \<lparr> cust_backgroundColor = None, cust_textColor = None, cust_accentColor = None,
       cust_fontFamily = None, cust_animations = None \<rparr>"

definition ex_options :: "int option \<Rightarrow> bool option \<Rightarrow> bool option \<Rightarrow> options" where
  "ex_options m t c =
     \<lparr> opt_maxSlides = m, opt_includeTitle = t, opt_includeCTA = c, opt_ctaText = None,
       opt_ctaUrl = None, opt_customizations = no_customizations \<rparr>"

definition ten_paragraphs :: jstring where
  "ten_paragraphs =
     lit ''<p>a</p><p>b</p><p>c</p><p>d</p><p>e</p><p>f</p><p>g</p><p>h</p><p>i</p><p>j</p>''"

definition three_quotes :: jstring where
  "three_quotes = lit ''> a\<newline>\<newline>> b\<newline>\<newline>> c''"

definition words23 :: jstring where
  "words23 = lit ''a a a a a a a a a a a a a a a a a a a a a a a''"

definition words52 :: jstring where
  "words52 = lit ''a a a a a a a a a a a a a a a a a a a a a a a a a a a a a a a a a a a a a a a a a a a a a a a a a a a a''"

definition words51 :: jstring where
  "words51 = lit ''a a a a a a a a a a a a a a a a a a a a a a a a a a a a a a a a a a a a a a a a a a a a a a a a a a a''"

definition quote_and_text :: jstring where
  "quote_and_text = lit ''> a\<newline>\<newline>b''"

definition two_short_paragraphs :: jstring where
  "two_short_paragraphs = lit ''<p>First paragraph text here.</p><p>Second paragraph.</p>''"

definition text_then_heading :: jstring where
  "text_then_heading = lit ''<p>Intro</p><h2>Head</h2>''"

definition text_then_heading_quote :: jstring where
  "text_then_heading_quote = lit ''a\<newline>\<newline><h2><blockquote>q</blockquote></h2>''"

definition text_then_indented_quote :: jstring where
  "text_then_indented_quote = lit ''Intro\<newline>\<newline> > quoted words''"

definition buffer_a :: seg_state where
  "buffer_a = \<lparr> chunks = [], currentChunk = lit ''a'', chunkWordCount = 1 \<rparr>"

text \<open>A host whose escaping replaces the three characters that text serialisation escapes.\<close>

definition ex_escape :: "jstring \<Rightarrow> jstring" where
  "ex_escape s =
     replace_global (m_lit (lit ''>'')) (lit ''&gt;'')
       (replace_global (m_lit (lit ''<'')) (lit ''&lt;'')
          (replace_global (m_lit (lit ''&'')) (lit ''&amp;'') s))"

definition ex_host :: host where
  "ex_host = \<lparr> escapeHTML = ex_escape, toISOString_now = lit ''2024-01-01T00:00:00.000Z'' \<rparr>"

definition ex_metadata :: metadata where
  "ex_metadata =
     \<lparr> md_title = lit ''Hello World'', md_description = lit ''A story'', md_author = lit ''Ada'',
       publisherName = lit ''Example'', publisherLogo = lit ''https://example.com/logo.png'',
       canonicalUrl = lit ''https://example.com/hello'' \<rparr>"

section \<open>Properties\<close>

lemma starts_with_iff: "starts_with s pat \<longleftrightarrow> (\<exists>r. s = pat @ r)"
  by (induction s pat rule: starts_with.induct) auto

lemma js_includes_iff: "js_includes s pat \<longleftrightarrow> (\<exists>a b. s = a @ pat @ b)"
proof (induction s)
  case Nil
  then show ?case by auto
next
  case (Cons c cs)
  show ?case
  proof
    assume "js_includes (c # cs) pat"
    then consider "starts_with (c # cs) pat" | "js_includes cs pat" by auto
    then show "\<exists>a b. c # cs = a @ pat @ b"
    proof cases
      case 1
      then obtain r where "c # cs = pat @ r" by (auto simp: starts_with_iff)
      then have "c # cs = [] @ pat @ r" by simp
      then show ?thesis by blast
    next
      case 2
      then obtain a b where "cs = a @ pat @ b" using Cons.IH by auto
      then have "c # cs = (c # a) @ pat @ b" by simp
      then show ?thesis by blast
    qed
  next
    assume "\<exists>a b. c # cs = a @ pat @ b"
    then obtain a b where ab: "c # cs = a @ pat @ b" by auto
    show "js_includes (c # cs) pat"
    proof (cases a)
      case Nil
      with ab have "starts_with (c # cs) pat" by (auto simp: starts_with_iff)
      then show ?thesis by simp
    next
      case (Cons x a')
      with ab have "cs = a' @ pat @ b" by simp
      then have "js_includes cs pat" using Cons.IH by blast
      then show ?thesis by simp
    qed
  qed
qed

subsection \<open>Slide duration\<close>

text \<open>The leading bit brackets a positive integer, the exponent a positive number.\<close>

lemma ilog2_bounds: "0 < n \<Longrightarrow> 2 ^ ilog2 n \<le> n \<and> n < 2 ^ Suc (ilog2 n)"
proof (induction n rule: ilog2.induct)
  case (1 n)
  show ?case
  proof (cases "n < 2")
    case True
    with 1 have "n = 1" by simp
    then show ?thesis by (simp add: ilog2.simps)
  next
    case False
    then have "0 < n div 2" by simp
    with 1 False have ih: "2 ^ ilog2 (n div 2) \<le> n div 2 \<and> n div 2 < 2 ^ Suc (ilog2 (n div 2))"
      by simp
    have e: "ilog2 n = Suc (ilog2 (n div 2))" using False by (subst ilog2.simps) simp
    show ?thesis unfolding e using ih by simp arith
  qed
qed

lemma expo_bounds:
  assumes "0 < x"
  shows "2 powi expo x \<le> x \<and> x < 2 powi (expo x + 1)"
proof (cases "1 \<le> x")
  case True
  define n where "n = nat \<lfloor>x\<rfloor>"
  have f1: "1 \<le> \<lfloor>x\<rfloor>" using True by (simp add: le_floor_iff)
  then have n1: "0 < n" by (simp add: n_def)
  have e: "expo x = int (ilog2 n)" using True by (simp add: expo_def n_def)
  from ilog2_bounds [OF n1] have a: "2 ^ ilog2 n \<le> n" and b: "Suc n \<le> 2 ^ Suc (ilog2 n)" by auto
  have nx: "rat_of_nat n = of_int \<lfloor>x\<rfloor>" using f1 by (simp add: n_def)
  have "rat_of_nat (2 ^ ilog2 n) \<le> of_nat n" using a by (simp only: of_nat_le_iff)
  then have lo: "2 ^ ilog2 n \<le> x" using nx by (simp add: le_floor_iff)
  have "rat_of_nat (Suc n) \<le> of_nat (2 ^ Suc (ilog2 n))" using b by (simp only: of_nat_le_iff)
  then have "of_int \<lfloor>x\<rfloor> + 1 \<le> (2::rat) ^ Suc (ilog2 n)" using nx by simp
  moreover have "x < of_int \<lfloor>x\<rfloor> + 1" by linarith
  ultimately have hi: "x < 2 ^ Suc (ilog2 n)" by linarith
  have "2 powi (int (ilog2 n) + 1) = (2::rat) ^ Suc (ilog2 n)"
    by (metis of_nat_Suc power_int_of_nat add.commute of_nat_1 of_nat_add)
  with lo hi show ?thesis unfolding e by simp
next
  case False
  define y where "y = 1 / x"
  define m where "m = nat (\<lceil>y\<rceil> - 1)"
  have y1: "1 < y" using False assms by (simp add: y_def)
  then have c2: "2 \<le> \<lceil>y\<rceil>" by (simp add: le_ceiling_iff) 
  then have m1: "0 < m" by (simp add: m_def)
  have e: "expo x = - int (Suc (ilog2 m))" using False by (simp add: expo_def m_def y_def)
  from ilog2_bounds [OF m1] have a: "2 ^ ilog2 m \<le> m" and b: "Suc m \<le> 2 ^ Suc (ilog2 m)" by auto
  have my: "rat_of_nat m = of_int \<lceil>y\<rceil> - 1" using c2 by (simp add: m_def)
  have "rat_of_nat (2 ^ ilog2 m) \<le> of_nat m" using a by (simp only: of_nat_le_iff)
  moreover have "of_int \<lceil>y\<rceil> - 1 < y" by linarith
  ultimately have lo: "2 ^ ilog2 m < y" using my by simp
  have "rat_of_nat (Suc m) \<le> of_nat (2 ^ Suc (ilog2 m))" using b by (simp only: of_nat_le_iff)
  then have "of_int \<lceil>y\<rceil> \<le> (2::rat) ^ Suc (ilog2 m)" using my by simp
  moreover have "y \<le> of_int \<lceil>y\<rceil>" by linarith
  ultimately have hi: "y \<le> 2 ^ Suc (ilog2 m)" by linarith
  have x: "x = 1 / y" by (simp add: y_def)
  have p1: "2 powi (- int (Suc (ilog2 m))) = 1 / (2::rat) ^ Suc (ilog2 m)"
    by (simp only: power_int_minus_divide power_int_of_nat)
  have p2: "2 powi (- int (Suc (ilog2 m)) + 1) = 1 / (2::rat) ^ ilog2 m"
  proof -
    have "- int (Suc (ilog2 m)) + 1 = - int (ilog2 m)" by simp
    then show ?thesis by (simp only: power_int_minus_divide power_int_of_nat)
  qed
  have "1 / (2::rat) ^ Suc (ilog2 m) \<le> 1 / y" using hi y1 by (intro divide_left_mono) auto
  then have l: "1 / (2::rat) ^ Suc (ilog2 m) \<le> x" by (simp only: x)
  have "1 / y < 1 / (2::rat) ^ ilog2 m" using lo y1 by (intro divide_strict_left_mono) auto
  then have h: "x < 1 / (2::rat) ^ ilog2 m" by (simp only: x)
  show ?thesis unfolding e p1 p2 using l h by (rule conjI)
qed

lemma expo_mono: "0 < x \<Longrightarrow> x \<le> y \<Longrightarrow> expo x \<le> expo y"
proof (rule ccontr)
  assume x: "0 < x" and xy: "x \<le> y" and n: "\<not> expo x \<le> expo y"
  then have "expo y + 1 \<le> expo x" by simp
  then have "(2::rat) powi (expo y + 1) \<le> 2 powi expo x" by (intro power_int_increasing) auto
  moreover have "2 powi expo x \<le> x" using expo_bounds [OF x] by simp
  moreover have "y < 2 powi (expo y + 1)" using expo_bounds [of y] x xy by simp
  ultimately show False using xy by linarith
qed

lemma expo_less: "0 < x \<Longrightarrow> x < 2 powi k \<Longrightarrow> expo x < k"
proof (rule ccontr)
  assume x: "0 < x" and xk: "x < 2 powi k" and n: "\<not> expo x < k"
  then have "(2::rat) powi k \<le> 2 powi expo x" by (intro power_int_increasing) auto
  moreover have "2 powi expo x \<le> x" using expo_bounds [OF x] by simp
  ultimately show False using xk by linarith
qed

lemma round_even_ge: "\<lfloor>q\<rfloor> \<le> round_even q"
  by (simp add: round_even_def Let_def)

lemma round_even_le: "round_even q \<le> \<lfloor>q\<rfloor> + 1"
  by (simp add: round_even_def Let_def)

lemma round_even_of_int: "round_even (of_int n) = n"
  by (simp add: round_even_def)

lemma round_even_mono: "q \<le> q' \<Longrightarrow> round_even q \<le> round_even q'"
proof (cases "\<lfloor>q\<rfloor> = \<lfloor>q'\<rfloor>")
  case True
  assume "q \<le> q'"
  then have "q - of_int \<lfloor>q'\<rfloor> \<le> q' - of_int \<lfloor>q'\<rfloor>" by simp
  then show ?thesis unfolding round_even_def Let_def True by auto
next
  case False
  assume "q \<le> q'"
  then have "\<lfloor>q\<rfloor> \<le> \<lfloor>q'\<rfloor>" by (rule floor_mono)
  with False have "\<lfloor>q\<rfloor> + 1 \<le> \<lfloor>q'\<rfloor>" by simp
  then show ?thesis using round_even_le [of q] round_even_ge [of q'] by linarith
qed

lemma round_even_error: "\<bar>of_int (round_even q) - q\<bar> \<le> 1 / 2"
proof -
  have "of_int \<lfloor>q\<rfloor> \<le> q" and "q < of_int \<lfloor>q\<rfloor> + 1" by linarith+
  then show ?thesis unfolding round_even_def Let_def by auto
qed

lemma ulp_pos: "0 < ulp x"
  by (simp add: ulp_def)

lemma scaled_bounds:
  assumes "0 < x"
  shows "2 ^ 52 \<le> x / ulp x \<and> x / ulp x < 2 ^ 53"
proof -
  have a: "2 powi expo x = 2 ^ 52 * ulp x"
  proof -
    have "expo x = 52 + (expo x - 52)" by simp
    then have "(2::rat) powi expo x = 2 powi (52 + (expo x - 52))" by (simp only:)
    also have "\<dots> = 2 powi 52 * 2 powi (expo x - 52)" by (rule power_int_add) simp
    finally show ?thesis by (simp add: ulp_def)
  qed
  have b: "2 powi (expo x + 1) = 2 ^ 53 * ulp x"
  proof -
    have "expo x + 1 = 53 + (expo x - 52)" by simp
    then have "(2::rat) powi (expo x + 1) = 2 powi (53 + (expo x - 52))" by (simp only:)
    also have "\<dots> = 2 powi 53 * 2 powi (expo x - 52)" by (rule power_int_add) simp
    finally show ?thesis by (simp add: ulp_def)
  qed
  from expo_bounds [OF assms] have "2 ^ 52 * ulp x \<le> x" and "x < 2 ^ 53 * ulp x"
    unfolding a b by simp_all
  then show ?thesis using ulp_pos [of x] by (simp add: pos_le_divide_eq pos_divide_less_eq)
qed

lemma significand_bounds:
  assumes "0 < x"
  shows "2 ^ 52 \<le> round_even (x / ulp x) \<and> round_even (x / ulp x) \<le> 2 ^ 53"
proof -
  have "round_even (of_int (2 ^ 52)) \<le> round_even (x / ulp x)"
    using scaled_bounds [OF assms] by (intro round_even_mono) simp
  moreover have "round_even (x / ulp x) \<le> round_even (of_int (2 ^ 53))"
    using scaled_bounds [OF assms] by (intro round_even_mono) simp
  ultimately show ?thesis by (simp only: round_even_of_int) 
qed

lemma fl_pos: "0 < x \<Longrightarrow> fl x = of_int (round_even (x / ulp x)) * ulp x"
  by (simp add: fl_def)

lemma fl_neg: "x < 0 \<Longrightarrow> fl x = - fl (- x)"
  by (simp add: fl_def)

lemma fl_zero: "fl 0 = 0"
  by (simp add: fl_def)

lemma fl_nonneg: "0 \<le> x \<Longrightarrow> 0 \<le> fl x"
proof (cases "x = 0")
  case True
  then show ?thesis by (simp add: fl_zero)
next
  case False
  assume "0 \<le> x"
  with False have x: "0 < x" by simp
  then have "0 \<le> round_even (x / ulp x)" using significand_bounds [of x] by simp
  then show ?thesis using x ulp_pos [of x] by (simp add: fl_pos)
qed

lemma fl_mono_pos:
  assumes x: "0 < x" and xy: "x \<le> y"
  shows "fl x \<le> fl y"
proof -
  from x xy have y: "0 < y" by simp
  have fx: "fl x = of_int (round_even (x / ulp x)) * ulp x" using x by (rule fl_pos)
  have fy: "fl y = of_int (round_even (y / ulp y)) * ulp y" using y by (rule fl_pos)
  show ?thesis
  proof (cases "expo x = expo y")
    case True
    then have u: "ulp x = ulp y" by (simp add: ulp_def)
    have "x / ulp y \<le> y / ulp y" using xy ulp_pos [of y] by (simp add: divide_right_mono)
    then have "round_even (x / ulp y) \<le> round_even (y / ulp y)" by (rule round_even_mono)
    then show ?thesis unfolding fx fy u using ulp_pos [of y] by simp
  next
    case False
    with expo_mono [OF x xy] have "expo x + 1 \<le> expo y" by simp
    then have p: "(2::rat) powi (expo x + 1) \<le> 2 powi expo y" by (intro power_int_increasing) auto
    have "rat_of_int (round_even (x / ulp x)) \<le> of_int (2 ^ 53)"
      using significand_bounds [OF x] by (simp only: of_int_le_iff)
    then have "fl x \<le> 2 ^ 53 * ulp x" unfolding fx using ulp_pos [of x] by simp
    also have "\<dots> = 2 powi (53 + (expo x - 52))" unfolding ulp_def
      by (subst power_int_add) simp_all
    also have "\<dots> = 2 powi (expo x + 1)"
    proof -
      have "53 + (expo x - 52) = expo x + 1" by simp
      then show ?thesis by (simp only:)
    qed
    also have "\<dots> \<le> 2 powi expo y" by (rule p)
    also have "\<dots> = 2 powi (52 + (expo y - 52))"
    proof -
      have "expo y = 52 + (expo y - 52)" by simp
      then show ?thesis by (simp only:)
    qed
    also have "\<dots> = 2 ^ 52 * ulp y" unfolding ulp_def by (subst power_int_add) simp_all
    also have "\<dots> \<le> fl y"
    proof -
      have "rat_of_int (2 ^ 52) \<le> of_int (round_even (y / ulp y))"
        using significand_bounds [OF y] by (simp only: of_int_le_iff)
      then show ?thesis unfolding fy using ulp_pos [of y] by simp
    qed
    finally show ?thesis .
  qed
qed

lemma fl_mono: "x \<le> y \<Longrightarrow> fl x \<le> fl y"
proof -
  assume xy: "x \<le> y"
  consider "0 < x" | "x = 0" | "x < 0" "0 \<le> y" | "x < 0" "y < 0" by linarith
  then show ?thesis
  proof cases
    case 1
    then show ?thesis using xy by (rule fl_mono_pos)
  next
    case 2
    then show ?thesis using xy fl_nonneg [of y] by (simp add: fl_zero)
  next
    case 3
    then have "0 \<le> fl (- x)" and "0 \<le> fl y" by (simp_all add: fl_nonneg)
    then show ?thesis using 3 by (simp add: fl_neg)
  next
    case 4
    then have "fl (- y) \<le> fl (- x)" using xy by (intro fl_mono_pos) simp_all
    then show ?thesis using 4 by (simp add: fl_neg)
  qed
qed

lemma fl_error: "0 < x \<Longrightarrow> \<bar>fl x - x\<bar> \<le> ulp x / 2"
proof -
  assume x: "0 < x"
  have "fl x - x = (of_int (round_even (x / ulp x)) - x / ulp x) * ulp x"
    using x ulp_pos [of x] by (simp add: fl_pos algebra_simps)
  then have "\<bar>fl x - x\<bar> = \<bar>of_int (round_even (x / ulp x)) - x / ulp x\<bar> * ulp x"
    using ulp_pos [of x] by (simp add: abs_mult)
  also have "\<dots> \<le> 1 / 2 * ulp x"
    using round_even_error [of "x / ulp x"] ulp_pos [of x] by (intro mult_right_mono) auto
  finally show ?thesis by simp
qed

text \<open>The duration as a function of the word count.\<close>

lemma tenth: "fl (1 / 10) = 3602879701896397 / 36028797018963968"
  by code_simp

lemma fl_8: "fl 8 = 8"
  by code_simp

lemma fl_50: "fl (50 * (3602879701896397 / 36028797018963968)) = 5"
  by code_simp

lemma seconds_1: "3 < seconds 1"
  by code_simp

lemma seconds_49: "seconds 49 < 8"
  by code_simp

lemma seconds_bounds: "3 \<le> seconds n \<and> seconds n \<le> 8"
  by (simp add: seconds_def clamp_def)

lemma seconds_mono: "m \<le> n \<Longrightarrow> seconds m \<le> seconds n"
proof -
  assume "m \<le> n"
  then have "rat_of_nat m * fl (1 / 10) \<le> of_nat n * fl (1 / 10)"
    using fl_nonneg [of "1 / 10"] by (intro mult_right_mono) simp_all
  then have "fl (of_nat m * fl (1 / 10)) \<le> fl (of_nat n * fl (1 / 10))" by (rule fl_mono)
  then have "3 + fl (of_nat m * fl (1 / 10)) \<le> 3 + fl (of_nat n * fl (1 / 10))" by simp
  then have "fl (3 + fl (of_nat m * fl (1 / 10))) \<le> fl (3 + fl (of_nat n * fl (1 / 10)))"
    by (rule fl_mono)
  then show ?thesis unfolding seconds_def clamp_def by (simp add: min_def max_def)
qed

lemma seconds_saturated: "50 \<le> n \<Longrightarrow> seconds n = 8"
proof -
  assume "50 \<le> n"
  then have "seconds 50 \<le> seconds n" by (rule seconds_mono)
  moreover have "seconds 50 = 8" by code_simp
  ultimately show ?thesis using seconds_bounds [of n] by simp
qed

lemma seconds_below: "n < 50 \<Longrightarrow> seconds n < 8"
proof -
  assume "n < 50"
  then have "n \<le> 49" by simp
  then have "seconds n \<le> seconds 49" by (rule seconds_mono)
  then show ?thesis using seconds_49 by simp
qed

lemma seconds_above: "1 \<le> n \<Longrightarrow> 3 < seconds n"
proof -
  assume "1 \<le> n"
  then have "seconds 1 \<le> seconds n" by (rule seconds_mono)
  then show ?thesis using seconds_1 by simp
qed

lemma fl_error_8:
  assumes "0 < x" and "x < 8"
  shows "\<bar>fl x - x\<bar> \<le> 1 / 2 ^ 51"
proof -
  have "x < 2 powi 3" using assms(2) by simp
  with assms(1) have "expo x < 3" by (rule expo_less)
  then have "expo x - 52 \<le> - 50" by simp
  then have "(2::rat) powi (expo x - 52) \<le> 2 powi (- 50)" by (intro power_int_increasing) auto
  then have "ulp x \<le> 1 / 2 ^ 50" by (simp add: ulp_def power_int_minus_divide)
  then have "ulp x / 2 \<le> 1 / 2 ^ 51" by simp
  with fl_error [OF assms(1)] show ?thesis by linarith
qed

lemma clamp_lipschitz: "\<bar>clamp a 3 8 - clamp b 3 8\<bar> \<le> \<bar>a - b\<bar>"
  unfolding clamp_def by linarith

lemma seconds_error:
  assumes "1 \<le> n"
  shows "\<bar>seconds n - clamp (3 + of_nat n * (1 / 10)) 3 8\<bar> \<le> 1 / 2 ^ 49"
proof (cases "n < 50")
  case False
  then have "seconds n = 8" by (simp add: seconds_saturated)
  moreover have "(50::rat) \<le> of_nat n" using False by simp
  then have "clamp (3 + of_nat n * (1 / 10)) 3 8 = 8" by (simp add: clamp_def)
  ultimately show ?thesis by simp
next
  case True
  define x1 where "x1 = rat_of_nat n * fl (1 / 10)"
  define p where "p = fl x1"
  define x2 where "x2 = 3 + p"
  have n1: "(1::rat) \<le> of_nat n" using assms by simp
  have n49: "rat_of_nat n \<le> 49" using True by simp
  have d: "x1 - of_nat n * (1 / 10) = of_nat n / 180143985094819840"
    unfolding x1_def tenth by (simp add: field_simps)
  have x1pos: "0 < x1" using n1 unfolding x1_def tenth by simp
  have x1le: "x1 \<le> 49 * (3602879701896397 / 36028797018963968)"
    using n49 unfolding x1_def tenth by simp
  then have x1lt: "x1 < 8" by simp
  have e1: "\<bar>p - x1\<bar> \<le> 1 / 2 ^ 51" unfolding p_def using x1pos x1lt by (rule fl_error_8)
  have p0: "0 \<le> p" unfolding p_def using x1pos by (intro fl_nonneg) simp
  have "p \<le> x1 + 1 / 2 ^ 51" using e1 by linarith
  with x1le have "p < 5" by simp
  with p0 have x2: "0 < x2" "x2 < 8" by (simp_all add: x2_def)
  have e2: "\<bar>fl x2 - x2\<bar> \<le> 1 / 2 ^ 51" using x2 by (rule fl_error_8)
  have e3: "\<bar>x1 - of_nat n * (1 / 10)\<bar> \<le> 1 / 2 ^ 51" unfolding d using n49 by simp
  have "\<bar>fl x2 - (3 + of_nat n * (1 / 10))\<bar> \<le> 3 / 2 ^ 51"
    using e1 e2 e3 unfolding x2_def by linarith
  then have "\<bar>fl x2 - (3 + of_nat n * (1 / 10))\<bar> \<le> 1 / 2 ^ 49" by simp
  moreover have "seconds n = clamp (fl x2) 3 8" by (simp add: seconds_def x2_def p_def x1_def)
  ultimately show ?thesis
    using clamp_lipschitz [of "fl x2" "3 + of_nat n * (1 / 10)"] by linarith
qed

lemma words_of_nonempty: "words_of s \<noteq> []"
  unfolding words_of_def by (cases "trim s") (auto split: list.splits)

lemma wordCount_pos: "1 \<le> wordCount s"
  using words_of_nonempty [of s] unfolding wordCount_def by (cases "words_of s") auto

lemma duration_formula: "calculateSlideDuration s = seconds (wordCount s)"
  by (simp add: calculateSlideDuration_def seconds_def clamp_def wordCount_def Let_def)

text \<open>
  C7, as the code has it: the duration of a text is the clamp of \<open>3 + wordCount * 0.1\<close>
  to the range from 3 to 8, with \<open>0.1\<close>, the product and the sum rounded to
  floating-point numbers; it differs from the exact clamp by at most \<open>1 / 2 ^ 49\<close>;
  it lies between 3 and 8, does not decrease when the word count grows, and is
  8 exactly from 50 words on; a text counts at least one word, so its duration exceeds 3.
\<close>

theorem calculateSlideDuration_clamp:
  "calculateSlideDuration s = clamp (fl (3 + fl (of_nat (wordCount s) * fl (1 / 10)))) 3 8
   \<and> \<bar>calculateSlideDuration s - clamp (3 + of_nat (wordCount s) * (1 / 10)) 3 8\<bar> \<le> 1 / 2 ^ 49
   \<and> 3 \<le> calculateSlideDuration s \<and> calculateSlideDuration s \<le> 8
   \<and> (wordCount s \<le> wordCount t \<longrightarrow> calculateSlideDuration s \<le> calculateSlideDuration t)
   \<and> (calculateSlideDuration s = 8 \<longleftrightarrow> 50 \<le> wordCount s)
   \<and> 1 \<le> wordCount s \<and> 3 < calculateSlideDuration s"
proof -
  have a: "calculateSlideDuration s = clamp (fl (3 + fl (of_nat (wordCount s) * fl (1 / 10)))) 3 8"
    unfolding duration_formula by (rule seconds_def)
  have b: "\<bar>calculateSlideDuration s - clamp (3 + of_nat (wordCount s) * (1 / 10)) 3 8\<bar> \<le> 1 / 2 ^ 49"
    unfolding duration_formula using wordCount_pos by (rule seconds_error)
  have c: "3 \<le> calculateSlideDuration s \<and> calculateSlideDuration s \<le> 8"
    unfolding duration_formula by (rule seconds_bounds)
  have d: "wordCount s \<le> wordCount t \<longrightarrow> calculateSlideDuration s \<le> calculateSlideDuration t"
    unfolding duration_formula by (rule impI) (rule seconds_mono)
  have e: "calculateSlideDuration s = 8 \<longleftrightarrow> 50 \<le> wordCount s"
    unfolding duration_formula using seconds_saturated [of "wordCount s"] seconds_below [of "wordCount s"]
    by (cases "wordCount s < 50") simp_all
  have f: "3 < calculateSlideDuration s"
    unfolding duration_formula using wordCount_pos by (rule seconds_above)
  show ?thesis using a b c d e f wordCount_pos [of s] by (intro conjI) simp_all
qed

lemma wordCount_a: "wordCount (lit ''a'') = 1"
  by (simp add: wordCount_def words_of_def trim_def lit_def is_ws_def)

lemma wordCount_52: "wordCount words52 = 52"
  by (simp add: words52_def wordCount_def words_of_def trim_def lit_def is_ws_def)

lemma wordCount_23: "wordCount words23 = 23"
  by (simp add: words23_def wordCount_def words_of_def trim_def lit_def is_ws_def)

lemma seconds_23: "seconds 23 = 1491817376566477 / 281474976710656"
  by code_simp

lemma seconds_1_value: "seconds 1 = 6980579422424269 / 2251799813685248"
  by code_simp

lemma wordCount_Nil: "wordCount [] = 1"
  by (simp add: wordCount_def words_of_def trim_def)

lemma fl_53: "fl (53 / 10) = 5967269506265907 / 1125899906842624"
  by code_simp

theorem calculateSlideDuration_clamp_witness:
  "wordCount (lit ''a'') \<le> wordCount words52
   \<and> calculateSlideDuration (lit ''a'') \<le> calculateSlideDuration words52
   \<and> 50 \<le> wordCount words52
   \<and> calculateSlideDuration words52 = 8
   \<and> 3 < calculateSlideDuration (lit ''a'')
   \<and> calculateSlideDuration (lit ''a'') < 8"
proof -
  have h1: "wordCount (lit ''a'') \<le> wordCount words52"
    by (simp add: wordCount_a wordCount_52)
  have h2: "50 \<le> wordCount words52"
    by (simp add: wordCount_52)
  have h3: "\<not> 50 \<le> wordCount (lit ''a'')"
    by (simp add: wordCount_a)
  show ?thesis
    using h1 h2 h3 calculateSlideDuration_clamp [of "lit ''a''" words52]
      calculateSlideDuration_clamp [of words52 "lit ''a''"]
    by (simp only: simp_thms) (simp add: less_le)
qed

text \<open>
  At 23 words the rounded product is \<open>2.3000000000000003\<close> and the rounded sum
  \<open>5.300000000000001\<close>: neither the number \<open>5.3\<close> nor the floating-point number written
  \<open>5.3\<close>. The empty text counts one word, the one piece of its split, and its duration
  is the floating-point number written \<open>3.1\<close>.
\<close>

theorem calculateSlideDuration_clamp_counterexample:
  "wordCount words23 = 23
   \<and> calculateSlideDuration words23 = 1491817376566477 / 281474976710656
   \<and> clamp (3 + of_nat (wordCount words23) * (1 / 10)) 3 8 = 53 / 10
   \<and> calculateSlideDuration words23 \<noteq> clamp (3 + of_nat (wordCount words23) * (1 / 10)) 3 8
   \<and> calculateSlideDuration words23 \<noteq> fl (53 / 10)
   \<and> wordCount [] = 1
   \<and> calculateSlideDuration [] = 6980579422424269 / 2251799813685248"
proof -
  have a: "calculateSlideDuration words23 = 1491817376566477 / 281474976710656"
    unfolding duration_formula wordCount_23 by (rule seconds_23)
  have e: "calculateSlideDuration [] = 6980579422424269 / 2251799813685248"
    unfolding duration_formula wordCount_Nil by (rule seconds_1_value)
  show ?thesis
    unfolding a e wordCount_23 wordCount_Nil fl_53 by (simp add: clamp_def)
qed

subsection \<open>Validation\<close>

text \<open>
  C8: the verdict is positive exactly when no error was recorded; a document without the
  viewport marker is invalid and carries the viewport error; a document without the
  canonical marker that has the format token, the story component and the viewport
  marker carries the canonical warning and is valid.
\<close>

theorem validateAMPHTML_verdict:
  "(isValid (validateAMPHTML m) \<longleftrightarrow> errors (validateAMPHTML m) = [])
   \<and> (\<not> js_includes m (lit ''viewport'') \<longrightarrow>
        \<not> isValid (validateAMPHTML m)
        \<and> lit ''Missing viewport meta tag'' \<in> set (errors (validateAMPHTML m)))
   \<and> (\<not> js_includes m (lit ''canonical'')
        \<and> (js_includes m zap \<or> js_includes m (lit ''amp''))
        \<and> js_includes m (lit ''amp-story'')
        \<and> js_includes m (lit ''viewport'') \<longrightarrow>
        lit ''Missing canonical URL'' \<in> set (warnings (validateAMPHTML m))
        \<and> isValid (validateAMPHTML m))"
  by (simp add: validateAMPHTML_def Let_def)

lemma includes_viewport_example:
  "js_includes (lit ''<html amp><amp-story></amp-story></html>'') (lit ''viewport'') = False"
  by (simp add: lit_def)

lemma markers_example:
  "\<not> js_includes (lit ''<html amp><meta name=viewport><amp-story></amp-story></html>'') (lit ''canonical'')
   \<and> js_includes (lit ''<html amp><meta name=viewport><amp-story></amp-story></html>'') (lit ''amp'')
   \<and> js_includes (lit ''<html amp><meta name=viewport><amp-story></amp-story></html>'') (lit ''amp-story'')
   \<and> js_includes (lit ''<html amp><meta name=viewport><amp-story></amp-story></html>'') (lit ''viewport'')"
  by (simp add: lit_def)

theorem validateAMPHTML_verdict_witness:
  "\<not> js_includes (lit ''<html amp><amp-story></amp-story></html>'') (lit ''viewport'')
   \<and> \<not> isValid (validateAMPHTML (lit ''<html amp><amp-story></amp-story></html>''))
   \<and> lit ''Missing viewport meta tag''
        \<in> set (errors (validateAMPHTML (lit ''<html amp><amp-story></amp-story></html>'')))
   \<and> \<not> js_includes (lit ''<html amp><meta name=viewport><amp-story></amp-story></html>'') (lit ''canonical'')
   \<and> js_includes (lit ''<html amp><meta name=viewport><amp-story></amp-story></html>'') (lit ''amp-story'')
   \<and> js_includes (lit ''<html amp><meta name=viewport><amp-story></amp-story></html>'') (lit ''viewport'')
   \<and> lit ''Missing canonical URL''
        \<in> set (warnings (validateAMPHTML (lit ''<html amp><meta name=viewport><amp-story></amp-story></html>'')))
   \<and> isValid (validateAMPHTML (lit ''<html amp><meta name=viewport><amp-story></amp-story></html>''))"
  using validateAMPHTML_verdict [of "lit ''<html amp><amp-story></amp-story></html>''"]
    validateAMPHTML_verdict [of "lit ''<html amp><meta name=viewport><amp-story></amp-story></html>''"]
    includes_viewport_example markers_example
  by blast

subsection \<open>Trimming and counting words\<close>

lemma last_dropWhile: "dropWhile P xs \<noteq> [] \<Longrightarrow> last (dropWhile P xs) = last xs"
  by (induction xs) (auto split: if_splits)

lemma dropWhile_hd_keep: "xs \<noteq> [] \<Longrightarrow> \<not> P (hd xs) \<Longrightarrow> dropWhile P xs = xs"
  by (cases xs) auto

lemma trim_blank_iff: "trim s = [] \<longleftrightarrow> (\<forall>c \<in> set s. is_ws c)"
proof -
  have "trim s = [] \<longleftrightarrow> (\<forall>c \<in> set (dropWhile is_ws s). is_ws c)"
    by (simp add: trim_def)
  also have "\<dots> \<longleftrightarrow> dropWhile is_ws s = []"
  proof
    assume a: "\<forall>c \<in> set (dropWhile is_ws s). is_ws c"
    show "dropWhile is_ws s = []"
    proof (rule ccontr)
      assume n: "dropWhile is_ws s \<noteq> []"
      then have "\<not> is_ws (hd (dropWhile is_ws s))" by (rule hd_dropWhile)
      moreover have "hd (dropWhile is_ws s) \<in> set (dropWhile is_ws s)" using n by (rule hd_in_set)
      ultimately show False using a by blast
    qed
  next
    assume "dropWhile is_ws s = []"
    then show "\<forall>c \<in> set (dropWhile is_ws s). is_ws c" by (metis empty_iff empty_set)
  qed
  also have "\<dots> \<longleftrightarrow> (\<forall>c \<in> set s. is_ws c)" by simp
  finally show ?thesis .
qed

text \<open>A string is its trimmed text between two runs of whitespace.\<close>

lemma trim_decomp:
  "\<exists>l r. s = l @ trim s @ r \<and> (\<forall>c \<in> set l. is_ws c) \<and> (\<forall>c \<in> set r. is_ws c)"
proof -
  define l where "l = takeWhile is_ws s"
  define d where "d = dropWhile is_ws s"
  define r where "r = rev (takeWhile is_ws (rev d))"
  have sd: "s = l @ d" by (simp add: l_def d_def)
  have "d = rev (rev d)" by simp
  also have "\<dots> = rev (takeWhile is_ws (rev d) @ dropWhile is_ws (rev d))"
    by (simp only: takeWhile_dropWhile_id)
  also have "\<dots> = rev (dropWhile is_ws (rev d)) @ rev (takeWhile is_ws (rev d))"
    by (rule rev_append)
  also have "\<dots> = trim s @ r" by (simp only: trim_def d_def r_def)
  finally have "d = trim s @ r" .
  with sd have "s = l @ trim s @ r" by simp
  moreover have "\<forall>c \<in> set l. is_ws c" unfolding l_def by (auto dest: set_takeWhileD)
  moreover have "\<forall>c \<in> set r. is_ws c" unfolding r_def by (auto dest: set_takeWhileD)
  ultimately show ?thesis by blast
qed

lemma trim_ends:
  assumes "trim s \<noteq> []"
  shows "\<not> is_ws (hd (trim s))" and "\<not> is_ws (last (trim s))"
proof -
  define d where "d = dropWhile is_ws s"
  define e where "e = dropWhile is_ws (rev d)"
  have t: "trim s = rev e" by (simp add: trim_def d_def e_def)
  with assms have e: "e \<noteq> []" by simp
  then have d: "d \<noteq> []" unfolding e_def by auto
  have "last (trim s) = hd e" unfolding t by (simp add: last_rev)
  moreover have "\<not> is_ws (hd e)" using e unfolding e_def by (rule hd_dropWhile)
  ultimately show "\<not> is_ws (last (trim s))" by simp
  have "hd (trim s) = last e" unfolding t by (simp add: hd_rev)
  also have "\<dots> = last (rev d)" using e unfolding e_def by (rule last_dropWhile)
  also have "\<dots> = hd d" by (simp add: last_rev)
  finally have "hd (trim s) = hd d" .
  moreover have "\<not> is_ws (hd d)" using d unfolding d_def by (rule hd_dropWhile)
  ultimately show "\<not> is_ws (hd (trim s))" by simp
qed

lemma trim_unique:
  assumes l: "\<forall>c \<in> set l. is_ws c" and r: "\<forall>c \<in> set r. is_ws c"
    and t: "t \<noteq> []" and h: "\<not> is_ws (hd t)" and e: "\<not> is_ws (last t)"
  shows "trim (l @ t @ r) = t"
proof -
  have "dropWhile is_ws (l @ t @ r) = dropWhile is_ws (t @ r)" using l by simp
  also have "\<dots> = t @ r" using t h by (intro dropWhile_hd_keep) auto
  finally have a: "dropWhile is_ws (l @ t @ r) = t @ r" .
  have "dropWhile is_ws (rev (t @ r)) = dropWhile is_ws (rev r @ rev t)" by simp
  also have "\<dots> = dropWhile is_ws (rev t)" by (rule dropWhile_append2) (use r in auto)
  also have "\<dots> = rev t" using t e by (intro dropWhile_hd_keep) (auto simp: hd_rev)
  finally have b: "dropWhile is_ws (rev (t @ r)) = rev t" .
  show ?thesis unfolding trim_def a b by simp
qed

lemma trim_trim: "trim (trim s) = trim s"
proof (cases "trim s = []")
  case True
  have "trim [] = []" by (simp add: trim_def)
  with True show ?thesis by simp
next
  case False
  then show ?thesis
    using trim_unique [of "[]" "[]" "trim s"] trim_ends [of s] by simp
qed

lemma split_on_nonempty: "split_on P s \<noteq> []"
  by (cases s) (auto split: list.splits)

text \<open>Cutting at whitespace runs distributes over a whitespace run between two words.\<close>

lemma split_on_glue:
  "x \<noteq> [] \<Longrightarrow> \<not> P (last x) \<Longrightarrow> w \<noteq> [] \<Longrightarrow> (\<forall>c \<in> set w. P c) \<Longrightarrow> y \<noteq> [] \<Longrightarrow> \<not> P (hd y)
   \<Longrightarrow> split_on P (x @ w @ y) = split_on P x @ split_on P y"
proof (induction P x rule: split_on.induct)
  case (1 P)
  then show ?case by simp
next
  case (2 P c cs)
  show ?case
  proof (cases "P c")
    case True
    with "2.prems" have cs: "cs \<noteq> []" by auto
    with "2.prems" have lc: "\<not> P (last cs)" by simp
    from cs have "last cs \<in> set cs" by simp
    with lc have dw: "dropWhile P (cs @ w @ y) = dropWhile P cs @ w @ y"
      by (metis dropWhile_append1)
    from lc cs have dne: "dropWhile P cs \<noteq> []" using \<open>last cs \<in> set cs\<close> by auto
    then have "last (dropWhile P cs) = last cs" by (rule last_dropWhile)
    with lc have "\<not> P (last (dropWhile P cs))" by simp
    with "2.IH"(1) [OF True dne] "2.prems"
    have "split_on P (dropWhile P cs @ w @ y) = split_on P (dropWhile P cs) @ split_on P y"
      by simp
    with True dw show ?thesis by simp
  next
    case False
    show ?thesis
    proof (cases "cs = []")
      case True
      from "2.prems" obtain v w' where w: "w = v # w'" and pv: "P v" and pw: "\<forall>c \<in> set w'. P c"
        by (cases w) auto
      have "dropWhile P (w' @ y) = dropWhile P y" using pw by simp
      also have "\<dots> = y" using "2.prems" by (intro dropWhile_hd_keep) auto
      finally have "split_on P (w @ y) = [] # split_on P y" using w pv by simp
      with False True show ?thesis by simp
    next
      case cs: False
      with "2.prems" have "\<not> P (last cs)" by simp
      with "2.IH"(2) [OF False cs] "2.prems"
      have ih: "split_on P (cs @ w @ y) = split_on P cs @ split_on P y" by simp
      obtain t ts where ts: "split_on P cs = t # ts"
        using split_on_nonempty [of P cs] by (cases "split_on P cs") auto
      with False ih show ?thesis by simp
    qed
  qed
qed

lemma nonblank_iff: "nonblank s \<longleftrightarrow> (\<exists>c \<in> set s. \<not> is_ws c)"
  by (simp add: nonblank_def trim_blank_iff)

lemma nonblank_nonempty: "nonblank s \<Longrightarrow> s \<noteq> []"
  by (auto simp: nonblank_iff)

lemma nonblank_join: "nonblank p \<Longrightarrow> nonblank (a @ w @ p)"
  by (auto simp: nonblank_iff)

lemma wordCount_trim: "wordCount (trim s) = wordCount s"
  by (simp add: wordCount_def words_of_def trim_trim)

lemma is_ws_nl: "is_ws 10"
  by (simp add: is_ws_def)

text \<open>Joining two paragraphs by a blank line adds their word counts.\<close>

lemma wordCount_join:
  assumes a: "nonblank a" and p: "nonblank p"
  shows "wordCount (a @ [10, 10] @ p) = wordCount a + wordCount p"
proof -
  obtain la ra where da: "a = la @ trim a @ ra" and la: "\<forall>c \<in> set la. is_ws c"
    and ra: "\<forall>c \<in> set ra. is_ws c"
    using trim_decomp [of a] by blast
  obtain lp rp where dp: "p = lp @ trim p @ rp" and lp: "\<forall>c \<in> set lp. is_ws c"
    and rp: "\<forall>c \<in> set rp. is_ws c"
    using trim_decomp [of p] by blast
  define w where "w = ra @ [10, 10] @ lp"
  have wne: "w \<noteq> []" by (simp add: w_def)
  have wws: "\<forall>c \<in> set w. is_ws c" using ra lp is_ws_nl by (auto simp: w_def)
  have ta: "trim a \<noteq> []" and tp: "trim p \<noteq> []" using a p by (simp_all add: nonblank_def)
  have "a @ [10, 10] @ p = (la @ trim a @ ra) @ [10, 10] @ (lp @ trim p @ rp)"
    using da dp by simp
  then have whole: "a @ [10, 10] @ p = la @ (trim a @ w @ trim p) @ rp"
    by (simp add: w_def)
  have "trim (la @ (trim a @ w @ trim p) @ rp) = trim a @ w @ trim p"
    using la rp ta tp trim_ends [of a] trim_ends [of p]
    by (intro trim_unique) auto
  then have "words_of (a @ [10, 10] @ p) = split_on is_ws (trim a @ w @ trim p)"
    unfolding words_of_def whole by simp
  also have "\<dots> = split_on is_ws (trim a) @ split_on is_ws (trim p)"
    using ta tp wne wws trim_ends [of a] trim_ends [of p] by (intro split_on_glue) auto
  finally show ?thesis by (simp add: wordCount_def words_of_def)
qed

subsection \<open>The shape of a story\<close>

text \<open>Content slides keep the number of the chunks and have one of three types.\<close>

lemma length_map_index: "length (map_index f i xs) = length xs"
  by (induction xs arbitrary: i) auto

lemma set_slice0: "set (slice0 xs n) \<subseteq> set xs"
  by (auto simp: slice0_def dest: in_set_takeD)

lemma slice0_neg_short: "n < 0 \<Longrightarrow> length xs \<le> 1 \<Longrightarrow> slice0 xs n = []"
  by (auto simp: slice0_def)

lemma slideTypeOf_cases:
  "slideTypeOf c images = T_content \<or> slideTypeOf c images = T_quote \<or> slideTypeOf c images = T_image"
  by (simp add: slideTypeOf_def)

lemma contentSlide_type:
  "slide_type (contentSlide u p cfg images i c) = slideTypeOf c images"
  by (simp add: contentSlide_def Let_def)

lemma map_index_types:
  "s \<in> set (map_index (\<lambda>index chunk. contentSlide (r index) p cfg images index chunk) i cs)
   \<Longrightarrow> slide_type s \<in> {T_content, T_quote, T_image}"
proof (induction cs arbitrary: i)
  case Nil
  then show ?case by simp
next
  case (Cons c cs)
  then show ?case
    using slideTypeOf_cases [of c images] by (auto simp: contentSlide_type)
qed

lemma createContentSlides_types:
  "s \<in> set (createContentSlides r p cfg m) \<Longrightarrow> slide_type s \<in> {T_content, T_quote, T_image}"
proof -
  assume "s \<in> set (createContentSlides r p cfg m)"
  then have "s \<in> set (map_index (\<lambda>index chunk. contentSlide (r index) p cfg
                 (extractImages (post_content p)) index chunk) 0 (segmentContent (post_content p) m))"
    unfolding createContentSlides_def Let_def using set_slice0 by (rule subsetD [rotated])
  then show ?thesis by (rule map_index_types)
qed

text \<open>The first iteration starts from an empty buffer and closes at most one chunk.\<close>

lemma segStep_init_length: "length (chunks (segStep init_state p)) \<le> 1"
  by (simp add: segStep_def init_state_def closeAtHeading_def closeAtBudget_def
      addParagraph_def closeAtTrigger_def)

lemma segLoop_nonpos: "m \<le> 0 \<Longrightarrow> length (chunks (segLoop m init_state ps)) \<le> 1"
proof (cases ps)
  case Nil
  then show ?thesis by (simp add: init_state_def)
next
  case (Cons p ps')
  assume "m \<le> 0"
  then have "m \<le> int (length (chunks (segStep init_state p)))" by simp
  then show ?thesis using Cons segStep_init_length [of p] by (simp add: Let_def)
qed

lemma segmentParagraphs_nonpos: "m \<le> 0 \<Longrightarrow> segmentParagraphs ps m = []"
proof -
  assume m: "m \<le> 0"
  have "addRemaining m (segLoop m init_state ps) = chunks (segLoop m init_state ps)"
    using m by (simp add: addRemaining_def)
  then have len: "length (addRemaining m (segLoop m init_state ps)) \<le> 1"
    using segLoop_nonpos [OF m] by simp
  show ?thesis
  proof (cases "m = 0")
    case True
    then show ?thesis by (simp add: segmentParagraphs_def slice0_def)
  next
    case False
    with m have "m < 0" by simp
    then show ?thesis unfolding segmentParagraphs_def using len by (rule slice0_neg_short)
  qed
qed

lemma segmentParagraphs_length: "int (length (segmentParagraphs ps m)) \<le> max 0 m"
proof (cases "m \<le> 0")
  case True
  then show ?thesis by (simp add: segmentParagraphs_nonpos)
next
  case False
  then show ?thesis by (simp add: segmentParagraphs_def slice0_def)
qed

lemma segmentContent_length: "int (length (segmentContent h m)) \<le> max 0 m"
  unfolding segmentContent_def by (rule segmentParagraphs_length)

lemma createContentSlides_length:
  "length (createContentSlides r p cfg m) = length (segmentContent (post_content p) m)"
proof (cases "m \<le> 0")
  case True
  then have "segmentContent (post_content p) m = []"
    by (simp add: segmentContent_def segmentParagraphs_nonpos)
  then show ?thesis by (simp add: createContentSlides_def Let_def slice0_def)
next
  case False
  then have "int (length (segmentContent (post_content p) m)) \<le> m"
    using segmentContent_length [of "post_content p" m] by simp
  then show ?thesis
    using False by (simp add: createContentSlides_def Let_def slice0_def length_map_index)
qed

text \<open>The story is the title part, the content part and the closing part, in this order.\<close>

lemma generateStory_parts:
  "generateStory tmpl random postData opts =
     titlePart tmpl random postData opts @ contentPart tmpl random postData opts
       @ ctaPart tmpl postData opts"
  by (simp add: generateStory_def titlePart_def contentPart_def ctaPart_def Let_def)

lemma titlePart_type: "s \<in> set (titlePart tmpl random postData opts) \<Longrightarrow> slide_type s = T_title"
  by (auto simp: titlePart_def createTitleSlide_def split: if_splits)

lemma ctaPart_type: "s \<in> set (ctaPart tmpl postData opts) \<Longrightarrow> slide_type s = T_cta"
  by (auto simp: ctaPart_def createCTASlide_def split: if_splits)

lemma contentPart_type:
  "s \<in> set (contentPart tmpl random postData opts) \<Longrightarrow> slide_type s \<in> {T_content, T_quote, T_image}"
  unfolding contentPart_def by (rule createContentSlides_types)

lemma length_titlePart:
  "length (titlePart tmpl random postData opts) = (if default_to (opt_includeTitle opts) True then 1 else 0)"
  by (simp add: titlePart_def)

lemma length_ctaPart:
  "length (ctaPart tmpl postData opts) = (if default_to (opt_includeCTA opts) True then 1 else 0)"
  by (simp add: ctaPart_def)

lemma filter_none: "(\<And>x. x \<in> set xs \<Longrightarrow> \<not> P x) \<Longrightarrow> filter P xs = []"
  by (induction xs) auto

lemma filter_all: "(\<And>x. x \<in> set xs \<Longrightarrow> P x) \<Longrightarrow> filter P xs = xs"
  by (induction xs) auto

lemma count_title:
  "length (filter (\<lambda>s. slide_type s = T_title) (generateStory tmpl random postData opts))
   = (if default_to (opt_includeTitle opts) True then 1 else 0)"
proof -
  have a: "filter (\<lambda>s. slide_type s = T_title) (titlePart tmpl random postData opts)
           = titlePart tmpl random postData opts"
    by (rule filter_all) (rule titlePart_type)
  have b: "filter (\<lambda>s. slide_type s = T_title) (contentPart tmpl random postData opts) = []"
    by (rule filter_none) (use contentPart_type in fastforce)
  have c: "filter (\<lambda>s. slide_type s = T_title) (ctaPart tmpl postData opts) = []"
    by (rule filter_none) (use ctaPart_type in fastforce)
  show ?thesis
    unfolding generateStory_parts filter_append a b c by (simp add: length_titlePart)
qed

lemma count_cta:
  "length (filter (\<lambda>s. slide_type s = T_cta) (generateStory tmpl random postData opts))
   = (if default_to (opt_includeCTA opts) True then 1 else 0)"
proof -
  have a: "filter (\<lambda>s. slide_type s = T_cta) (titlePart tmpl random postData opts) = []"
    by (rule filter_none) (use titlePart_type in fastforce)
  have b: "filter (\<lambda>s. slide_type s = T_cta) (contentPart tmpl random postData opts) = []"
    by (rule filter_none) (use contentPart_type in fastforce)
  have c: "filter (\<lambda>s. slide_type s = T_cta) (ctaPart tmpl postData opts)
           = ctaPart tmpl postData opts"
    by (rule filter_all) (rule ctaPart_type)
  show ?thesis
    unfolding generateStory_parts filter_append a b c by (simp add: length_ctaPart)
qed

lemma title_first:
  "default_to (opt_includeTitle opts) True \<Longrightarrow>
   generateStory tmpl random postData opts \<noteq> []
   \<and> slide_type (hd (generateStory tmpl random postData opts)) = T_title"
  by (simp add: generateStory_parts titlePart_def createTitleSlide_def)

lemma cta_last:
  "default_to (opt_includeCTA opts) True \<Longrightarrow>
   generateStory tmpl random postData opts \<noteq> []
   \<and> slide_type (last (generateStory tmpl random postData opts)) = T_cta"
  by (simp add: generateStory_parts ctaPart_def createCTASlide_def)

text \<open>
  C3: the story has exactly one title slide if and only if the title is enabled, exactly
  one closing slide if and only if the call to action is enabled; the title slide, when
  present, is the first slide and the closing slide the last.
\<close>

theorem generateStory_title_cta:
  "(length (filter (\<lambda>s. slide_type s = T_title) (generateStory tmpl random postData opts)) = 1
      \<longleftrightarrow> default_to (opt_includeTitle opts) True)
   \<and> (length (filter (\<lambda>s. slide_type s = T_cta) (generateStory tmpl random postData opts)) = 1
      \<longleftrightarrow> default_to (opt_includeCTA opts) True)
   \<and> (default_to (opt_includeTitle opts) True \<longrightarrow>
        generateStory tmpl random postData opts \<noteq> []
        \<and> slide_type (hd (generateStory tmpl random postData opts)) = T_title)
   \<and> (default_to (opt_includeCTA opts) True \<longrightarrow>
        generateStory tmpl random postData opts \<noteq> []
        \<and> slide_type (last (generateStory tmpl random postData opts)) = T_cta)"
  using title_first [of opts tmpl random postData] cta_last [of opts tmpl random postData]
  by (simp add: count_title count_cta)

subsection \<open>The cap of the segmenter\<close>

text \<open>
  A step only appends chunks, so the loop with a cap sees a prefix of what the loop
  without a cap builds, and the capped result is a prefix of the uncapped one.
\<close>

lemma segStep_chunks_prefix: "\<exists>xs. chunks (segStep st p) = chunks st @ xs"
  by (simp add: segStep_def closeAtHeading_def closeAtBudget_def addParagraph_def
      closeAtTrigger_def)

lemma foldl_chunks_prefix: "\<exists>xs. chunks (foldl segStep st ps) = chunks st @ xs"
proof (induction ps arbitrary: st)
  case Nil
  then show ?case by simp
next
  case (Cons p ps)
  obtain xs where a: "chunks (segStep st p) = chunks st @ xs"
    using segStep_chunks_prefix by blast
  obtain ys where b: "chunks (foldl segStep (segStep st p) ps) = chunks (segStep st p) @ ys"
    using Cons.IH by blast
  show ?case using a b by simp
qed

lemma withRemainder_prefix: "\<exists>xs. withRemainder (foldl segStep st ps) = chunks st @ xs"
proof -
  obtain xs where "chunks (foldl segStep st ps) = chunks st @ xs"
    using foldl_chunks_prefix by blast
  then show ?thesis by (simp add: withRemainder_def)
qed

lemma take_addRemaining:
  "take (nat m) (addRemaining m st) = take (nat m) (withRemainder st)"
  by (auto simp: addRemaining_def withRemainder_def)

lemma segLoop_take:
  "take (nat m) (addRemaining m (segLoop m st ps))
   = take (nat m) (withRemainder (foldl segStep st ps))"
proof (induction ps arbitrary: st)
  case Nil
  then show ?case by (simp add: take_addRemaining)
next
  case (Cons p ps)
  show ?case
  proof (cases "m \<le> int (length (chunks (segStep st p)))")
    case True
    then have n: "nat m \<le> length (chunks (segStep st p))" by simp
    obtain xs where x: "withRemainder (foldl segStep (segStep st p) ps) = chunks (segStep st p) @ xs"
      using withRemainder_prefix by blast
    have "addRemaining m (segStep st p) = chunks (segStep st p)"
      using True by (simp add: addRemaining_def)
    then show ?thesis using True n x by (simp add: Let_def)
  next
    case False
    then show ?thesis using Cons.IH [of "segStep st p"] by (simp add: Let_def)
  qed
qed

lemma segmentParagraphs_take: "segmentParagraphs ps m = take (nat m) (segmentAll ps)"
proof (cases "0 \<le> m")
  case True
  then show ?thesis
    unfolding segmentParagraphs_def segmentAll_def slice0_def using segLoop_take [of m init_state ps]
    by simp
next
  case False
  then show ?thesis by (simp add: segmentParagraphs_nonpos)
qed

lemma segmentContent_cap:
  "m \<le> k \<Longrightarrow> segmentContent c m = take (nat m) (segmentContent c k)"
  by (simp add: segmentContent_def segmentParagraphs_take min_def)

lemma length_segmentContent_cap:
  "m \<le> k \<Longrightarrow> length (segmentContent c m) = min (nat m) (length (segmentContent c k))"
  using segmentContent_cap [of m k c] by simp

text \<open>The last paragraph leaves a chunk or a buffer that is not blank.\<close>

lemma paragraphs_nonblank: "p \<in> set (paragraphs_of s) \<Longrightarrow> nonblank p"
  by (simp add: paragraphs_of_def nonblank_def)

lemma segStep_progress:
  assumes "nonblank p"
  shows "withRemainder (segStep st p) \<noteq> []"
proof (cases "isQuote p \<or> hasImageInParagraph p")
  case True
  then show ?thesis by (simp add: withRemainder_def segStep_def closeAtTrigger_def)
next
  case False
  define st' where "st' = closeAtBudget p (closeAtHeading p st)"
  have "segStep st p = addParagraph p st'"
    using False by (simp add: segStep_def closeAtTrigger_def st'_def)
  moreover have "nonblank (currentChunk (addParagraph p st'))"
    using assms by (auto simp: addParagraph_def nonblank_iff)
  ultimately show ?thesis by (simp add: withRemainder_def nonblank_def)
qed

lemma segmentAll_nonempty:
  assumes "ps \<noteq> []" and "\<forall>p \<in> set ps. nonblank p"
  shows "segmentAll ps \<noteq> []"
proof -
  obtain qs p where ps: "ps = qs @ [p]" using assms(1) by (cases ps rule: rev_cases) auto
  then have "nonblank p" using assms(2) by simp
  then show ?thesis unfolding segmentAll_def ps by (simp add: segStep_progress)
qed

lemma segmentAll_Nil: "segmentAll [] = []"
  by (simp add: segmentAll_def withRemainder_def init_state_def trim_def)

lemma segmentContent_nonempty_iff:
  "segmentContent c m \<noteq> [] \<longleftrightarrow> 1 \<le> m \<and> paragraphs_of (cleanHTML c) \<noteq> []"
proof (cases "paragraphs_of (cleanHTML c) = []")
  case True
  then show ?thesis by (simp add: segmentContent_def segmentParagraphs_take segmentAll_Nil)
next
  case False
  then have "segmentAll (paragraphs_of (cleanHTML c)) \<noteq> []"
    by (intro segmentAll_nonempty) (auto simp: paragraphs_nonblank)
  then show ?thesis using False by (auto simp: segmentContent_def segmentParagraphs_take)
qed

lemma length_contentPart:
  "length (contentPart tmpl random postData opts)
   = length (segmentContent (post_content postData)
       (default_to (opt_maxSlides opts) 10
          - (if default_to (opt_includeTitle opts) True then 1 else 0)
          - (if default_to (opt_includeCTA opts) True then 1 else 0)))"
  unfolding contentPart_def by (rule createContentSlides_length)

lemma length_generateStory:
  "length (generateStory tmpl random postData opts)
   = (if default_to (opt_includeTitle opts) True then 1 else 0)
     + length (segmentContent (post_content postData)
         (default_to (opt_maxSlides opts) 10
            - (if default_to (opt_includeTitle opts) True then 1 else 0)
            - (if default_to (opt_includeCTA opts) True then 1 else 0)))
     + (if default_to (opt_includeCTA opts) True then 1 else 0)"
  by (simp only: generateStory_parts length_append length_titlePart length_ctaPart
      length_contentPart add.assoc)

theorem generateStory_title_cta_witness:
  "default_to (opt_includeTitle (ex_options None None None)) True
   \<and> default_to (opt_includeCTA (ex_options None None None)) True
   \<and> length (filter (\<lambda>s. slide_type s = T_title)
        (generateStory ex_template ex_random (ex_post []) (ex_options None None None))) = 1
   \<and> length (filter (\<lambda>s. slide_type s = T_cta)
        (generateStory ex_template ex_random (ex_post []) (ex_options None None None))) = 1
   \<and> slide_type (hd (generateStory ex_template ex_random (ex_post []) (ex_options None None None)))
       = T_title
   \<and> slide_type (last (generateStory ex_template ex_random (ex_post []) (ex_options None None None)))
       = T_cta"
proof -
  have t: "default_to (opt_includeTitle (ex_options None None None)) True"
    by (simp add: ex_options_def default_to_def)
  have c: "default_to (opt_includeCTA (ex_options None None None)) True"
    by (simp add: ex_options_def default_to_def)
  show ?thesis
    using t c generateStory_title_cta [of ex_template ex_random "ex_post []" "ex_options None None None"]
    by blast
qed

text \<open>The texts of the content slides are the texts of the chunks, in their order.\<close>

lemma map_index_texts:
  "map (\<lambda>s. sc_text (slide_content s))
     (map_index (\<lambda>index chunk. contentSlide (r index) p cfg images index chunk) i cs)
   = map (\<lambda>ch. Some (chunk_text ch)) cs"
  by (induction cs arbitrary: i) (simp_all add: contentSlide_def Let_def empty_content_def)

lemma createContentSlides_texts:
  "map (\<lambda>s. sc_text (slide_content s)) (createContentSlides r p cfg m)
   = map (\<lambda>ch. Some (chunk_text ch)) (segmentContent (post_content p) m)"
proof (cases "m \<le> 0")
  case True
  then have "segmentContent (post_content p) m = []"
    by (simp add: segmentContent_def segmentParagraphs_nonpos)
  then show ?thesis by (simp add: createContentSlides_def Let_def slice0_def)
next
  case False
  then have "int (length (segmentContent (post_content p) m)) \<le> m"
    using segmentContent_length [of "post_content p" m] by simp
  then show ?thesis
    using False by (simp add: createContentSlides_def Let_def slice0_def length_map_index
        map_index_texts)
qed

lemma contentPart_texts:
  "map (\<lambda>s. sc_text (slide_content s)) (contentPart tmpl random postData opts)
   = map (\<lambda>ch. Some (chunk_text ch))
       (segmentContent (post_content postData)
          (default_to (opt_maxSlides opts) 10
             - (if default_to (opt_includeTitle opts) True then 1 else 0)
             - (if default_to (opt_includeCTA opts) True then 1 else 0)))"
  unfolding contentPart_def by (rule createContentSlides_texts)

text \<open>
  C2, as the code has it. The story holds at least the enabled fixed slides and at most
  \<open>maxSlides\<close> slides or the fixed ones, whichever is more. It holds between one and
  \<open>maxSlides\<close> slides exactly when \<open>maxSlides\<close> leaves room for the enabled fixed slides
  and there is a fixed slide or, with \<open>maxSlides\<close> at least one, a paragraph that is
  not blank. The content slides are the first chunks of the segmentation, as many as the
  fixed slides leave room for: the chunks beyond are dropped, whatever larger cap \<open>k\<close>
  the segmentation is compared with.
\<close>

theorem generateStory_length:
  "(if default_to (opt_includeTitle opts) True then 1 else 0)
     + (if default_to (opt_includeCTA opts) True then 1 else 0)
     \<le> length (generateStory tmpl random postData opts)
   \<and> int (length (generateStory tmpl random postData opts))
     \<le> max (default_to (opt_maxSlides opts) 10)
          ((if default_to (opt_includeTitle opts) True then 1 else 0)
           + (if default_to (opt_includeCTA opts) True then 1 else 0))
   \<and> (1 \<le> length (generateStory tmpl random postData opts)
        \<and> int (length (generateStory tmpl random postData opts))
            \<le> default_to (opt_maxSlides opts) 10
      \<longleftrightarrow>
        (if default_to (opt_includeTitle opts) True then 1 else 0)
          + (if default_to (opt_includeCTA opts) True then 1 else 0)
          \<le> default_to (opt_maxSlides opts) 10
        \<and> (default_to (opt_includeTitle opts) True \<or> default_to (opt_includeCTA opts) True
            \<or> 1 \<le> default_to (opt_maxSlides opts) 10
               \<and> paragraphs_of (cleanHTML (post_content postData)) \<noteq> []))
   \<and> (default_to (opt_maxSlides opts) 10
         - (if default_to (opt_includeTitle opts) True then 1 else 0)
         - (if default_to (opt_includeCTA opts) True then 1 else 0) \<le> k
       \<longrightarrow>
         length (generateStory tmpl random postData opts)
           = (if default_to (opt_includeTitle opts) True then 1 else 0)
             + min (nat (default_to (opt_maxSlides opts) 10
                         - (if default_to (opt_includeTitle opts) True then 1 else 0)
                         - (if default_to (opt_includeCTA opts) True then 1 else 0)))
                   (length (segmentContent (post_content postData) k))
             + (if default_to (opt_includeCTA opts) True then 1 else 0)
         \<and> map (\<lambda>s. sc_text (slide_content s))
             (take (length (generateStory tmpl random postData opts)
                      - (if default_to (opt_includeTitle opts) True then 1 else 0)
                      - (if default_to (opt_includeCTA opts) True then 1 else 0))
                (drop (if default_to (opt_includeTitle opts) True then 1 else 0)
                   (generateStory tmpl random postData opts)))
           = map (\<lambda>ch. Some (chunk_text ch))
               (take (nat (default_to (opt_maxSlides opts) 10
                           - (if default_to (opt_includeTitle opts) True then 1 else 0)
                           - (if default_to (opt_includeCTA opts) True then 1 else 0)))
                  (segmentContent (post_content postData) k)))"
proof -
  define t :: nat where "t = (if default_to (opt_includeTitle opts) True then 1 else 0)"
  define c :: nat where "c = (if default_to (opt_includeCTA opts) True then 1 else 0)"
  define m where "m = default_to (opt_maxSlides opts) 10"
  define room where "room = m - int t - int c"
  define n where "n = length (segmentContent (post_content postData) room)"
  define T where "T = titlePart tmpl random postData opts"
  define C where "C = contentPart tmpl random postData opts"
  define E where "E = ctaPart tmpl postData opts"
  define G where "G = generateStory tmpl random postData opts"
  have int_if: "\<And>b. int (if b then 1 else 0) = (if b then 1 else 0)" by simp
  have room: "default_to (opt_maxSlides opts) 10
         - (if default_to (opt_includeTitle opts) True then 1 else 0)
         - (if default_to (opt_includeCTA opts) True then 1 else 0) = room"
    by (simp add: room_def m_def t_def c_def)
  have S: "G = T @ C @ E"
    unfolding G_def T_def C_def E_def by (rule generateStory_parts)
  have lT: "length T = t" unfolding T_def t_def by (rule length_titlePart)
  have lE: "length E = c" unfolding E_def c_def by (rule length_ctaPart)
  have lC: "length C = n" unfolding C_def n_def length_contentPart room ..
  have len: "length G = t + n + c"
    unfolding S using lT lC lE by simp
  have mid: "take (length G - t - c) (drop t G) = C"
    unfolding len unfolding S using lT lC by simp
  have n: "int n \<le> max 0 room"
    unfolding n_def by (rule segmentContent_length)
  have n0: "0 < n \<longleftrightarrow> 1 \<le> room \<and> paragraphs_of (cleanHTML (post_content postData)) \<noteq> []"
    unfolding n_def using segmentContent_nonempty_iff [of "post_content postData" room] by simp
  have a: "t + c \<le> length G" unfolding len by simp
  have b: "int (length G) \<le> max m (int t + int c)" unfolding len using n by (auto simp: room_def)
  have d: "(1 \<le> length G \<and> int (length G) \<le> m)
           \<longleftrightarrow> int t + int c \<le> m
               \<and> (default_to (opt_includeTitle opts) True \<or> default_to (opt_includeCTA opts) True
                   \<or> 1 \<le> m \<and> paragraphs_of (cleanHTML (post_content postData)) \<noteq> [])"
  proof (cases "default_to (opt_includeTitle opts) True \<or> default_to (opt_includeCTA opts) True")
    case True
    then have "1 \<le> t + c" by (auto simp: t_def c_def)
    then show ?thesis unfolding len using True n by (auto simp: room_def)
  next
    case False
    then have tc: "t = 0" "c = 0" by (auto simp: t_def c_def)
    then have r: "room = m" by (simp add: room_def)
    show ?thesis unfolding len using False n n0 unfolding tc r by auto
  qed
  have e: "room \<le> k \<longrightarrow>
             length G = t + min (nat room) (length (segmentContent (post_content postData) k)) + c
             \<and> map (\<lambda>s. sc_text (slide_content s)) (take (length G - t - c) (drop t G))
               = map (\<lambda>ch. Some (chunk_text ch))
                   (take (nat room) (segmentContent (post_content postData) k))"
  proof
    assume k: "room \<le> k"
    have cap: "segmentContent (post_content postData) room
               = take (nat room) (segmentContent (post_content postData) k)"
      using k by (rule segmentContent_cap)
    then have "n = min (nat room) (length (segmentContent (post_content postData) k))"
      unfolding n_def by simp
    then have l: "length G = t + min (nat room) (length (segmentContent (post_content postData) k)) + c"
      unfolding len by simp
    have "map (\<lambda>s. sc_text (slide_content s)) C
          = map (\<lambda>ch. Some (chunk_text ch)) (segmentContent (post_content postData) room)"
      unfolding C_def contentPart_texts room ..
    then have x: "map (\<lambda>s. sc_text (slide_content s)) (take (length G - t - c) (drop t G))
               = map (\<lambda>ch. Some (chunk_text ch))
                   (take (nat room) (segmentContent (post_content postData) k))"
      unfolding mid unfolding cap .
    from l x show "length G = t + min (nat room) (length (segmentContent (post_content postData) k)) + c
             \<and> map (\<lambda>s. sc_text (slide_content s)) (take (length G - t - c) (drop t G))
               = map (\<lambda>ch. Some (chunk_text ch))
                   (take (nat room) (segmentContent (post_content postData) k))"
      by (rule conjI)
  qed
  have all: "t + c \<le> length G
     \<and> int (length G) \<le> max m (int t + int c)
     \<and> ((1 \<le> length G \<and> int (length G) \<le> m)
           \<longleftrightarrow> int t + int c \<le> m
               \<and> (default_to (opt_includeTitle opts) True \<or> default_to (opt_includeCTA opts) True
                   \<or> 1 \<le> m \<and> paragraphs_of (cleanHTML (post_content postData)) \<noteq> []))
     \<and> (room \<le> k \<longrightarrow>
             length G = t + min (nat room) (length (segmentContent (post_content postData) k)) + c
             \<and> map (\<lambda>s. sc_text (slide_content s)) (take (length G - t - c) (drop t G))
               = map (\<lambda>ch. Some (chunk_text ch))
                   (take (nat room) (segmentContent (post_content postData) k)))"
    using a b d e by (intro conjI)
  show ?thesis
    using all unfolding room_def G_def t_def c_def m_def int_if .
qed

lemmas seg_eval =
  lit_def is_ws_def is_word_def canon_def trim_def words_of_def m_lit_def m_lit_ci_def after_gt_def
  word_boundary_def opt_slash_def m_element_def m_br_def m_p_open_def heading_name_def
  allowed_name_def m_tag_def after_last_nl_def m_blank3_def m_blank2_def cleanHTML_def
  hash_marker_def isHeading_def isQuote_def hasImageInParagraph_def is_quote_mark_def
  attr_value_def m_img_attr_def extractImageFromParagraph_def extractImageAlt_def
  m_heading_tag_def m_blockquote_tag_def cleanHeadingText_def strip_quote_marker_def
  cleanQuoteText_def extractTitle_def maxWordsPerSlide_def plain_chunk_def closeAtHeading_def
  closeAtBudget_def addParagraph_def closeAtTrigger_def segStep_def slice0_def paragraphs_of_def
  init_state_def addRemaining_def segmentParagraphs_def segmentContent_def Let_def

lemma segmentContent_empty: "segmentContent [] m = []"
  by (simp add: seg_eval)

lemma texts_three_quotes:
  "map (\<lambda>ch. Some (chunk_text ch)) (segmentContent three_quotes 10)
   = [Some (lit ''a''), Some (lit ''b''), Some (lit ''c'')]"
  by (simp add: three_quotes_def seg_eval)

lemma paragraphs_three_quotes:
  "paragraphs_of (cleanHTML three_quotes) = [lit ''> a'', lit ''> b'', lit ''> c'']"
  by (simp add: three_quotes_def seg_eval)

text \<open>
  Three quotes are three chunks. With room for four slides and both fixed slides the
  story keeps the first two of them; with room for one slide and no fixed slide it keeps
  the first.
\<close>

theorem generateStory_length_witness:
  "default_to (opt_maxSlides (ex_options (Some 4) None None)) 10
     - (if default_to (opt_includeTitle (ex_options (Some 4) None None)) True then 1 else 0)
     - (if default_to (opt_includeCTA (ex_options (Some 4) None None)) True then 1 else 0) \<le> 10
   \<and> length (segmentContent (post_content (ex_post three_quotes)) 10) = 3
   \<and> length (generateStory ex_template ex_random (ex_post three_quotes)
        (ex_options (Some 4) None None)) = 4
   \<and> map (\<lambda>s. sc_text (slide_content s))
        (take 2 (drop 1 (generateStory ex_template ex_random (ex_post three_quotes)
           (ex_options (Some 4) None None))))
      = [Some (lit ''a''), Some (lit ''b'')]
   \<and> 1 \<le> default_to (opt_maxSlides (ex_options (Some 1) (Some False) (Some False))) 10
   \<and> paragraphs_of (cleanHTML (post_content (ex_post three_quotes))) \<noteq> []
   \<and> length (generateStory ex_template ex_random (ex_post three_quotes)
        (ex_options (Some 1) (Some False) (Some False))) = 1"
proof -
  have k: "default_to (opt_maxSlides (ex_options (Some 4) None None)) 10
     - (if default_to (opt_includeTitle (ex_options (Some 4) None None)) True then 1 else 0)
     - (if default_to (opt_includeCTA (ex_options (Some 4) None None)) True then 1 else 0) \<le> 10"
    by (simp add: ex_options_def default_to_def)
  have l3: "length (segmentContent (post_content (ex_post three_quotes)) 10) = 3"
    using arg_cong [OF texts_three_quotes, of length] by (simp add: ex_post_def)
  have t2: "map (\<lambda>ch. Some (chunk_text ch))
              (take 2 (segmentContent (post_content (ex_post three_quotes)) 10))
            = [Some (lit ''a''), Some (lit ''b'')]"
    using arg_cong [OF texts_three_quotes, of "take 2"] by (simp add: ex_post_def take_map)
  have o4: "default_to (opt_maxSlides (ex_options (Some 4) None None)) 10 = 4"
    "default_to (opt_includeTitle (ex_options (Some 4) None None)) True"
    "default_to (opt_includeCTA (ex_options (Some 4) None None)) True"
    by (simp_all add: ex_options_def default_to_def)
  have o1: "default_to (opt_maxSlides (ex_options (Some 1) (Some False) (Some False))) 10 = 1"
    "\<not> default_to (opt_includeTitle (ex_options (Some 1) (Some False) (Some False))) True"
    "\<not> default_to (opt_includeCTA (ex_options (Some 1) (Some False) (Some False))) True"
    by (simp_all add: ex_options_def default_to_def)
  have p: "paragraphs_of (cleanHTML (post_content (ex_post three_quotes))) \<noteq> []"
    by (simp add: ex_post_def paragraphs_three_quotes)
  have a: "length (generateStory ex_template ex_random (ex_post three_quotes)
             (ex_options (Some 4) None None)) = 4
           \<and> map (\<lambda>s. sc_text (slide_content s))
               (take 2 (drop 1 (generateStory ex_template ex_random (ex_post three_quotes)
                  (ex_options (Some 4) None None))))
             = [Some (lit ''a''), Some (lit ''b'')]"
    using generateStory_length [of "ex_options (Some 4) None None" ex_template ex_random
        "ex_post three_quotes" 10] t2
    by (clarsimp simp: o4 l3 numeral_2_eq_2)
  have b: "length (generateStory ex_template ex_random (ex_post three_quotes)
             (ex_options (Some 1) (Some False) (Some False))) = 1"
    using p generateStory_length [of "ex_options (Some 1) (Some False) (Some False)" ex_template
        ex_random "ex_post three_quotes" 1]
    by (simp add: o1)
  show ?thesis using k l3 a o1(1) p b by simp
qed

text \<open>
  With room for one slide and both fixed slides enabled the story has two slides; with
  both fixed slides disabled and no content it has none.
\<close>

theorem generateStory_length_counterexample:
  "\<not> (1 \<le> length (generateStory ex_template ex_random (ex_post [])
               (ex_options (Some 1) (Some True) (Some True)))
      \<and> int (length (generateStory ex_template ex_random (ex_post [])
               (ex_options (Some 1) (Some True) (Some True)))) \<le> 1)
   \<and> \<not> (1 \<le> length (generateStory ex_template ex_random (ex_post [])
               (ex_options (Some 10) (Some False) (Some False)))
      \<and> int (length (generateStory ex_template ex_random (ex_post [])
               (ex_options (Some 10) (Some False) (Some False)))) \<le> 10)"
proof -
  have a: "length (generateStory ex_template ex_random (ex_post [])
             (ex_options (Some 1) (Some True) (Some True))) = 2"
    unfolding length_generateStory
    by (simp add: ex_options_def ex_post_def default_to_def segmentContent_empty)
  have b: "length (generateStory ex_template ex_random (ex_post [])
             (ex_options (Some 10) (Some False) (Some False))) = 0"
    unfolding length_generateStory
    by (simp add: ex_options_def ex_post_def default_to_def segmentContent_empty)
  show ?thesis unfolding a b by simp
qed

lemma cleanHTML_ten:
  "cleanHTML ten_paragraphs =
     lit ''a\<newline>\<newline>b\<newline>\<newline>c\<newline>\<newline>d\<newline>\<newline>e\<newline>\<newline>f\<newline>\<newline>g\<newline>\<newline>h\<newline>\<newline>i\<newline>\<newline>j''"
  by (simp add: ten_paragraphs_def seg_eval)

lemma paragraphs_ten:
  "paragraphs_of (cleanHTML ten_paragraphs) =
     [lit ''a'', lit ''b'', lit ''c'', lit ''d'', lit ''e'', lit ''f'', lit ''g'', lit ''h'',
      lit ''i'', lit ''j'']"
  unfolding cleanHTML_ten by (simp add: seg_eval)

lemma segment_ten: "length (segmentContent ten_paragraphs 3) = 1"
  unfolding segmentContent_def paragraphs_ten by (simp add: seg_eval)

text \<open>
  With room for five slides and both fixed slides enabled, the story is the title slide,
  one slide of type content, quote or image for each of the at most three chunks the
  segmenter returns under its cap of three, and the closing slide.
\<close>

lemma generateStory_shape:
  assumes "default_to (opt_maxSlides opts) 10 = 5"
    and "default_to (opt_includeTitle opts) True"
    and "default_to (opt_includeCTA opts) True"
  shows "length (generateStory tmpl random postData opts)
           = length (segmentContent (post_content postData) 3) + 2
         \<and> length (segmentContent (post_content postData) 3) \<le> 3
         \<and> slide_type (generateStory tmpl random postData opts ! 0) = T_title
         \<and> (\<forall>i. 1 \<le> i \<and> i \<le> length (segmentContent (post_content postData) 3) \<longrightarrow>
               slide_type (generateStory tmpl random postData opts ! i)
                 \<in> {T_content, T_quote, T_image})
         \<and> slide_type (generateStory tmpl random postData opts
               ! (length (segmentContent (post_content postData) 3) + 1)) = T_cta"
proof -
  define T where "T = titlePart tmpl random postData opts"
  define C where "C = contentPart tmpl random postData opts"
  define E where "E = ctaPart tmpl postData opts"
  define n where "n = length (segmentContent (post_content postData) 3)"
  have S: "generateStory tmpl random postData opts = T @ C @ E"
    unfolding T_def C_def E_def by (rule generateStory_parts)
  obtain t where T: "T = [t]" and t: "slide_type t = T_title"
    using assms(2) unfolding T_def by (simp add: titlePart_def createTitleSlide_def)
  obtain e where E: "E = [e]" and e: "slide_type e = T_cta"
    using assms(3) unfolding E_def by (simp add: ctaPart_def createCTASlide_def)
  have lC: "length C = n"
    unfolding C_def n_def length_contentPart using assms by simp
  have n3: "n \<le> 3"
    using segmentContent_length [of "post_content postData" 3] unfolding n_def by simp
  have len: "length (T @ C @ E) = n + 2" using T E lC by simp
  have first: "slide_type ((T @ C @ E) ! 0) = T_title" using T t by simp
  have mid: "\<forall>i. 1 \<le> i \<and> i \<le> n \<longrightarrow> slide_type ((T @ C @ E) ! i) \<in> {T_content, T_quote, T_image}"
  proof (intro allI impI)
    fix i assume i: "1 \<le> i \<and> i \<le> n"
    then have "(T @ C @ E) ! i = C ! (i - 1)"
      using T lC by (auto simp: nth_append nth_Cons')
    moreover have "i - 1 < length C" using i lC by arith
    then have "C ! (i - 1) \<in> set C" by (rule nth_mem)
    ultimately show "slide_type ((T @ C @ E) ! i) \<in> {T_content, T_quote, T_image}"
      using contentPart_type [of "C ! (i - 1)" tmpl random postData opts] unfolding C_def by simp
  qed
  have "(T @ C @ E) ! (n + 1) = e"
    using T E lC by (simp add: nth_append)
  then have final: "slide_type ((T @ C @ E) ! (n + 1)) = T_cta" using e by simp
  show ?thesis
    unfolding S n_def [symmetric] using len n3 first mid final by simp
qed

text \<open>
  C1, as the code has it: with room for five slides and both fixed slides enabled, a
  content that segments into at least three chunks, under whatever cap \<open>k\<close> of at least
  three, gives exactly five slides: the title slide, three slides of type content, quote
  or image, and the closing slide.
\<close>

theorem generateStory_five:
  assumes "default_to (opt_maxSlides opts) 10 = 5"
    and "default_to (opt_includeTitle opts) True"
    and "default_to (opt_includeCTA opts) True"
    and "3 \<le> k"
    and "3 \<le> length (segmentContent (post_content postData) k)"
  shows "length (generateStory tmpl random postData opts) = 5
         \<and> slide_type (generateStory tmpl random postData opts ! 0) = T_title
         \<and> slide_type (generateStory tmpl random postData opts ! 1) \<in> {T_content, T_quote, T_image}
         \<and> slide_type (generateStory tmpl random postData opts ! 2) \<in> {T_content, T_quote, T_image}
         \<and> slide_type (generateStory tmpl random postData opts ! 3) \<in> {T_content, T_quote, T_image}
         \<and> slide_type (generateStory tmpl random postData opts ! 4) = T_cta"
proof -
  have "length (segmentContent (post_content postData) 3)
        = min (nat 3) (length (segmentContent (post_content postData) k))"
    using assms(4) by (rule length_segmentContent_cap)
  then have n: "length (segmentContent (post_content postData) 3) = 3"
    using assms(5) by simp
  note shape = generateStory_shape [OF assms(1-3), of tmpl random postData, unfolded n]
  have mid: "\<And>i. 1 \<le> i \<Longrightarrow> i \<le> 3 \<Longrightarrow>
      slide_type (generateStory tmpl random postData opts ! i) \<in> {T_content, T_quote, T_image}"
    using shape by blast
  have "slide_type (generateStory tmpl random postData opts ! 1) \<in> {T_content, T_quote, T_image}"
    by (rule mid) simp_all
  moreover have "slide_type (generateStory tmpl random postData opts ! 2) \<in> {T_content, T_quote, T_image}"
    by (rule mid) simp_all
  moreover have "slide_type (generateStory tmpl random postData opts ! 3) \<in> {T_content, T_quote, T_image}"
    by (rule mid) simp_all
  ultimately show ?thesis using shape by simp
qed

theorem generateStory_five_witness:
  "default_to (opt_maxSlides (ex_options (Some 5) (Some True) (Some True))) 10 = 5
   \<and> default_to (opt_includeTitle (ex_options (Some 5) (Some True) (Some True))) True
   \<and> default_to (opt_includeCTA (ex_options (Some 5) (Some True) (Some True))) True
   \<and> (3::int) \<le> 10
   \<and> 3 \<le> length (segmentContent (post_content (ex_post three_quotes)) 10)
   \<and> length (generateStory ex_template ex_random (ex_post three_quotes)
        (ex_options (Some 5) (Some True) (Some True))) = 5
   \<and> slide_type (generateStory ex_template ex_random (ex_post three_quotes)
        (ex_options (Some 5) (Some True) (Some True)) ! 0) = T_title
   \<and> slide_type (generateStory ex_template ex_random (ex_post three_quotes)
        (ex_options (Some 5) (Some True) (Some True)) ! 1) \<in> {T_content, T_quote, T_image}
   \<and> slide_type (generateStory ex_template ex_random (ex_post three_quotes)
        (ex_options (Some 5) (Some True) (Some True)) ! 4) = T_cta"
proof -
  have m: "default_to (opt_maxSlides (ex_options (Some 5) (Some True) (Some True))) 10 = 5"
    by (simp add: ex_options_def default_to_def)
  have t: "default_to (opt_includeTitle (ex_options (Some 5) (Some True) (Some True))) True"
    by (simp add: ex_options_def default_to_def)
  have c: "default_to (opt_includeCTA (ex_options (Some 5) (Some True) (Some True))) True"
    by (simp add: ex_options_def default_to_def)
  have k: "(3::int) \<le> 10" by simp
  have n: "3 \<le> length (segmentContent (post_content (ex_post three_quotes)) 10)"
    using arg_cong [OF texts_three_quotes, of length] by (simp add: ex_post_def)
  show ?thesis
    using m t c k n
      generateStory_five [OF m t c k n, of ex_template ex_random]
    by blast
qed

text \<open>
  Ten one-word paragraphs stay within the word budget and become one chunk: the story
  has three slides.
\<close>

theorem generateStory_five_counterexample:
  "length (paragraphs_of (cleanHTML (post_content (ex_post ten_paragraphs)))) = 10
   \<and> length (generateStory ex_template ex_random (ex_post ten_paragraphs)
        (ex_options (Some 5) (Some True) (Some True))) = 3"
proof -
  have a: "length (paragraphs_of (cleanHTML (post_content (ex_post ten_paragraphs)))) = 10"
    by (simp add: ex_post_def paragraphs_ten)
  have b: "length (generateStory ex_template ex_random (ex_post ten_paragraphs)
        (ex_options (Some 5) (Some True) (Some True))) = 3"
    unfolding length_generateStory
    by (simp add: ex_options_def ex_post_def default_to_def segment_ten)
  show ?thesis using a b by simp
qed

subsection \<open>The word budget\<close>

lemma wordCount_words: "length (words_of p) = wordCount p"
  by (simp add: wordCount_def)

text \<open>Each phase of an iteration keeps the invariant of the segmenter.\<close>

lemma buffer_text_ok:
  assumes "buffer_ok P st"
  shows "wordCount (trim (currentChunk st)) \<le> maxWordsPerSlide
         \<or> (\<exists>p \<in> P. trim (currentChunk st) = trim p)"
proof (cases "currentChunk st = []")
  case True
  have "trim [] = []" by (simp add: trim_def)
  with True show ?thesis by (simp add: wordCount_Nil maxWordsPerSlide_def)
next
  case False
  with assms have w: "wordCount (currentChunk st) = chunkWordCount st"
    and b: "chunkWordCount st \<le> maxWordsPerSlide \<or> currentChunk st \<in> P"
    by (auto simp: buffer_ok_def)
  from b show ?thesis
  proof
    assume "chunkWordCount st \<le> maxWordsPerSlide"
    with w show ?thesis by (simp add: wordCount_trim)
  next
    assume "currentChunk st \<in> P"
    then show ?thesis by blast
  qed
qed

lemma plain_chunk_ok:
  assumes "buffer_ok P st"
  shows "chunk_ok P (plain_chunk t (currentChunk st))"
proof -
  have q: "isQuoteChunk (plain_chunk t (currentChunk st)) = False"
    and x: "chunk_text (plain_chunk t (currentChunk st)) = trim (currentChunk st)"
    by (simp_all add: plain_chunk_def)
  show ?thesis
    unfolding chunk_ok_def q x using buffer_text_ok [OF assms] by (simp only: if_False)
qed

lemma buffer_ok_reset: "buffer_ok P \<lparr> chunks = cs, currentChunk = [], chunkWordCount = 0 \<rparr>"
  by (simp add: buffer_ok_def)

lemma push_plain_inv:
  assumes "seg_inv P st"
  shows "seg_inv P \<lparr> chunks = chunks st @ [plain_chunk t (currentChunk st)],
                      currentChunk = [], chunkWordCount = 0 \<rparr>"
proof -
  from assms have b: "buffer_ok P st" and c: "\<forall>c \<in> set (chunks st). chunk_ok P c"
    by (simp_all add: seg_inv_def)
  from b have "chunk_ok P (plain_chunk t (currentChunk st))" by (rule plain_chunk_ok)
  with c show ?thesis by (simp add: seg_inv_def buffer_ok_reset)
qed

lemma closeAtHeading_inv:
  assumes "seg_inv P st"
  shows "seg_inv P (closeAtHeading p st)"
proof (cases "isHeading p \<and> currentChunk st \<noteq> []")
  case True
  then have "closeAtHeading p st =
      \<lparr> chunks = chunks st @ [plain_chunk None (currentChunk st)],
        currentChunk = [], chunkWordCount = 0 \<rparr>"
    by (simp add: closeAtHeading_def)
  then show ?thesis using push_plain_inv [OF assms] by (simp only:)
next
  case False
  then have "closeAtHeading p st = st" by (auto simp: closeAtHeading_def)
  then show ?thesis using assms by (simp only:)
qed

lemma closeAtBudget_inv:
  assumes "seg_inv P st"
  shows "seg_inv P (closeAtBudget p st)"
proof (cases "chunkWordCount st + length (words_of p) > maxWordsPerSlide \<and> currentChunk st \<noteq> []")
  case True
  then have "closeAtBudget p st =
      \<lparr> chunks = chunks st @
          [plain_chunk (if isHeading p then None else extractTitle (currentChunk st))
             (currentChunk st)],
        currentChunk = [], chunkWordCount = 0 \<rparr>"
    by (simp add: closeAtBudget_def)
  then show ?thesis using push_plain_inv [OF assms] by (simp only:)
next
  case False
  then have "closeAtBudget p st = st" by (auto simp: closeAtBudget_def)
  then show ?thesis using assms by (simp only:)
qed

lemma closeAtBudget_room: "budget_room p (closeAtBudget p st)"
  by (auto simp: budget_room_def closeAtBudget_def wordCount_words)

lemma addParagraph_inv:
  assumes inv: "seg_inv P st" and room: "budget_room p st" and nb: "nonblank p" and mem: "p \<in> P"
  shows "seg_inv P (addParagraph p st)"
proof -
  have cs: "\<forall>c \<in> set (chunks (addParagraph p st)). chunk_ok P c"
    using inv by (simp add: seg_inv_def addParagraph_def)
  have "buffer_ok P (addParagraph p st)"
  proof (cases "currentChunk st = []")
    case True
    have "\<not> nonblank []" by (simp add: nonblank_iff)
    with inv True have "chunkWordCount st = 0" by (auto simp: seg_inv_def buffer_ok_def)
    with True nb mem show ?thesis
      by (simp add: buffer_ok_def addParagraph_def wordCount_words)
  next
    case False
    with inv have b: "nonblank (currentChunk st)"
      and w: "wordCount (currentChunk st) = chunkWordCount st"
      by (auto simp: seg_inv_def buffer_ok_def)
    from False room have r: "chunkWordCount st + wordCount p \<le> maxWordsPerSlide"
      by (simp add: budget_room_def)
    have "nonblank (currentChunk st @ [10, 10] @ p)" using nb by (rule nonblank_join)
    moreover have "wordCount (currentChunk st @ [10, 10] @ p) = chunkWordCount st + wordCount p"
      using wordCount_join [OF b nb] w by simp
    ultimately show ?thesis
      using False r by (simp add: buffer_ok_def addParagraph_def wordCount_words)
  qed
  with cs show ?thesis by (simp add: seg_inv_def)
qed

lemma closeAtTrigger_inv:
  assumes inv: "seg_inv P st" and mem: "p \<in> P"
  shows "seg_inv P (closeAtTrigger p st)"
proof (cases "isQuote p \<or> hasImageInParagraph p")
  case False
  with inv show ?thesis by (simp add: closeAtTrigger_def)
next
  case True
  have "chunk_ok P
          \<lparr> chunk_title = (if isHeading p then Some (cleanHeadingText p) else None),
            chunk_text = (if isQuote p then cleanQuoteText p else trim (currentChunk st)),
            chunk_image = (if hasImageInParagraph p then extractImageFromParagraph p else None),
            chunk_imageAlt = (if hasImageInParagraph p then extractImageAlt p else None),
            hasImage = hasImageInParagraph p,
            isQuoteChunk = isQuote p \<rparr>"
  proof (cases "isQuote p")
    case True
    with mem show ?thesis by (auto simp: chunk_ok_def)
  next
    case False
    from inv have "buffer_ok P st" by (simp add: seg_inv_def)
    from buffer_text_ok [OF this] False show ?thesis by (simp add: chunk_ok_def)
  qed
  with inv True show ?thesis
    by (simp add: seg_inv_def closeAtTrigger_def buffer_ok_reset)
qed

lemma segStep_inv:
  assumes "seg_inv P st" and "nonblank p" and "p \<in> P"
  shows "seg_inv P (segStep st p)"
proof -
  have a: "seg_inv P (closeAtBudget p (closeAtHeading p st))"
    using assms(1) by (intro closeAtBudget_inv closeAtHeading_inv)
  have "seg_inv P (addParagraph p (closeAtBudget p (closeAtHeading p st)))"
    using a closeAtBudget_room assms(2,3) by (rule addParagraph_inv)
  then show ?thesis unfolding segStep_def using assms(3) by (rule closeAtTrigger_inv)
qed

lemma segLoop_inv:
  "seg_inv P st \<Longrightarrow> (\<forall>p \<in> set ps. nonblank p \<and> p \<in> P) \<Longrightarrow> seg_inv P (segLoop m st ps)"
proof (induction ps arbitrary: st)
  case Nil
  then show ?case by simp
next
  case (Cons p ps)
  from Cons.prems have a: "seg_inv P (segStep st p)" by (intro segStep_inv) simp_all
  from Cons.prems have r: "\<forall>p \<in> set ps. nonblank p \<and> p \<in> P" by simp
  have "seg_inv P (segLoop m (segStep st p) ps)" using a r by (rule Cons.IH)
  with a show ?case by (simp add: Let_def)
qed

lemma seg_inv_init: "seg_inv P init_state"
  by (simp add: seg_inv_def init_state_def buffer_ok_def)

lemma addRemaining_ok:
  assumes "seg_inv P st" and "c \<in> set (addRemaining m st)"
  shows "chunk_ok P c"
proof -
  from assms(1) have b: "buffer_ok P st" and cs: "\<forall>c \<in> set (chunks st). chunk_ok P c"
    by (simp_all add: seg_inv_def)
  have p: "chunk_ok P (plain_chunk None (currentChunk st))" using b by (rule plain_chunk_ok)
  show ?thesis
  proof (cases "trim (currentChunk st) \<noteq> [] \<and> int (length (chunks st)) < m")
    case True
    then have "addRemaining m st = chunks st @ [plain_chunk None (currentChunk st)]"
      by (simp add: addRemaining_def)
    with assms(2) have "c \<in> set (chunks st @ [plain_chunk None (currentChunk st)])"
      by (simp only:)
    then have "c \<in> set (chunks st) \<union> {plain_chunk None (currentChunk st)}"
      by (simp only: set_append list.set)
    then have "c \<in> set (chunks st) \<or> c = plain_chunk None (currentChunk st)" by blast
    then show ?thesis
    proof
      assume "c \<in> set (chunks st)"
      with cs show ?thesis by (rule bspec)
    next
      assume "c = plain_chunk None (currentChunk st)"
      with p show ?thesis by (simp only:)
    qed
  next
    case False
    then have "addRemaining m st = chunks st" by (auto simp: addRemaining_def)
    with assms(2) have "c \<in> set (chunks st)" by (simp only:)
    with cs show ?thesis by (rule bspec)
  qed
qed

lemma segmentParagraphs_ok:
  assumes "\<forall>p \<in> set ps. nonblank p" and "c \<in> set (segmentParagraphs ps m)"
  shows "chunk_ok (set ps) c"
proof -
  from assms(1) have "\<forall>p \<in> set ps. nonblank p \<and> p \<in> set ps" by simp
  with seg_inv_init have inv: "seg_inv (set ps) (segLoop m init_state ps)"
    by (rule segLoop_inv)
  have "set (slice0 (addRemaining m (segLoop m init_state ps)) m)
          \<subseteq> set (addRemaining m (segLoop m init_state ps))"
    by (rule set_slice0)
  moreover from assms(2)
  have "c \<in> set (slice0 (addRemaining m (segLoop m init_state ps)) m)"
    by (simp only: segmentParagraphs_def)
  ultimately have "c \<in> set (addRemaining m (segLoop m init_state ps))" by (rule subsetD)
  with inv show ?thesis by (rule addRemaining_ok)
qed

text \<open>
  C4, as the code has it: the text of a chunk that is not a quote has at most 50 words
  or is one single paragraph of the content, trimmed; the text of a quote chunk is one
  quote paragraph, cleaned.
\<close>

theorem segmentContent_budget:
  "c \<in> set (segmentContent html m) \<Longrightarrow>
   (if isQuoteChunk c
    then \<exists>p \<in> set (paragraphs_of (cleanHTML html)). isQuote p \<and> chunk_text c = cleanQuoteText p
    else wordCount (chunk_text c) \<le> 50
         \<or> (\<exists>p \<in> set (paragraphs_of (cleanHTML html)). chunk_text c = trim p))"
proof -
  assume c: "c \<in> set (segmentContent html m)"
  have nb: "\<forall>p \<in> set (paragraphs_of (cleanHTML html)). nonblank p"
    using paragraphs_nonblank by blast
  from c have "c \<in> set (segmentParagraphs (paragraphs_of (cleanHTML html)) m)"
    by (simp only: segmentContent_def)
  with nb have "chunk_ok (set (paragraphs_of (cleanHTML html))) c"
    by (rule segmentParagraphs_ok)
  then show ?thesis unfolding chunk_ok_def maxWordsPerSlide_def .
qed

subsection \<open>Steps of the segmenter\<close>

lemma closeAtHeading_skip:
  "\<not> isHeading p \<or> currentChunk st = [] \<Longrightarrow> closeAtHeading p st = st"
  by (auto simp: closeAtHeading_def)

lemma closeAtBudget_skip:
  "currentChunk st = [] \<or> chunkWordCount st + length (words_of p) \<le> maxWordsPerSlide
   \<Longrightarrow> closeAtBudget p st = st"
  by (auto simp: closeAtBudget_def)

lemma closeAtTrigger_skip:
  "\<not> isQuote p \<Longrightarrow> \<not> hasImageInParagraph p \<Longrightarrow> closeAtTrigger p st = st"
  by (simp add: closeAtTrigger_def)

lemma closeAtTrigger_quote:
  "isQuote q \<Longrightarrow> \<not> isHeading q \<Longrightarrow>
   closeAtTrigger q st =
     \<lparr> chunks = chunks st @
         [\<lparr> chunk_title = None, chunk_text = cleanQuoteText q,
            chunk_image = (if hasImageInParagraph q then extractImageFromParagraph q else None),
            chunk_imageAlt = (if hasImageInParagraph q then extractImageAlt q else None),
            hasImage = hasImageInParagraph q, isQuoteChunk = True \<rparr>],
       currentChunk = [], chunkWordCount = 0 \<rparr>"
  by (simp add: closeAtTrigger_def)

lemma chunks_addParagraph: "chunks (addParagraph p st) = chunks st"
  by (simp add: addParagraph_def)

text \<open>A paragraph that triggers nothing and fits is appended to the open buffer.\<close>

lemma segStep_append:
  assumes "\<not> isQuote p" and "\<not> hasImageInParagraph p"
    and "\<not> isHeading p \<or> currentChunk st = []"
    and "currentChunk st = [] \<or> chunkWordCount st + length (words_of p) \<le> maxWordsPerSlide"
  shows "segStep st p = addParagraph p st"
  unfolding segStep_def
  by (simp only: closeAtHeading_skip [OF assms(3)] closeAtBudget_skip [OF assms(4)]
      closeAtTrigger_skip [OF assms(1,2)])

text \<open>A quote that is no heading and fits closes a chunk of its own and empties the buffer.\<close>

lemma segStep_quote:
  assumes "isQuote q" and "\<not> isHeading q"
    and "chunkWordCount st + length (words_of q) \<le> maxWordsPerSlide"
  shows "segStep st q =
     \<lparr> chunks = chunks st @
         [\<lparr> chunk_title = None, chunk_text = cleanQuoteText q,
            chunk_image = (if hasImageInParagraph q then extractImageFromParagraph q else None),
            chunk_imageAlt = (if hasImageInParagraph q then extractImageAlt q else None),
            hasImage = hasImageInParagraph q, isQuoteChunk = True \<rparr>],
       currentChunk = [], chunkWordCount = 0 \<rparr>"
proof -
  have h: "closeAtHeading q st = st" using assms(2) by (intro closeAtHeading_skip) simp
  have b: "closeAtBudget q st = st" using assms(3) by (intro closeAtBudget_skip) simp
  show ?thesis
    unfolding segStep_def h b closeAtTrigger_quote [OF assms(1,2)]
    by (simp only: chunks_addParagraph)
qed

lemma join_Cons: "join sep (p # ps) = p @ concat (map (\<lambda>q. sep @ q) ps)"
  by (induction ps arbitrary: p) auto

lemma segLoop_step:
  "int (length (chunks (segStep st p))) < m \<Longrightarrow> segLoop m st (p # ps) = segLoop m (segStep st p) ps"
  by (simp add: Let_def)

lemma segLoop_accumulate:
  assumes "chunks st = []" and "currentChunk st \<noteq> []"
    and "\<forall>p \<in> set ps. \<not> isQuote p \<and> \<not> hasImageInParagraph p \<and> \<not> isHeading p"
    and "chunkWordCount st + sum_list (map wordCount ps) \<le> maxWordsPerSlide"
    and "1 \<le> m"
  shows "chunks (segLoop m st ps) = []
         \<and> currentChunk (segLoop m st ps) = currentChunk st @ concat (map (\<lambda>q. [10, 10] @ q) ps)
         \<and> chunkWordCount (segLoop m st ps) = chunkWordCount st + sum_list (map wordCount ps)"
  using assms
proof (induction ps arbitrary: st)
  case Nil
  then show ?case by simp
next
  case (Cons p ps)
  from Cons.prems have fit: "chunkWordCount st + length (words_of p) \<le> maxWordsPerSlide"
    by (simp add: wordCount_words)
  have step: "segStep st p = addParagraph p st"
    using Cons.prems(3) fit by (intro segStep_append) simp_all
  have c': "chunks (segStep st p) = []"
    unfolding step using Cons.prems(1) by (simp add: addParagraph_def)
  have b': "currentChunk (segStep st p) = currentChunk st @ [10, 10] @ p"
    unfolding step using Cons.prems(2) by (simp add: addParagraph_def)
  have n': "chunkWordCount (segStep st p) = chunkWordCount st + wordCount p"
    unfolding step by (simp add: addParagraph_def wordCount_words)
  have ne: "currentChunk (segStep st p) \<noteq> []" unfolding b' by simp
  have rest: "\<forall>p \<in> set ps. \<not> isQuote p \<and> \<not> hasImageInParagraph p \<and> \<not> isHeading p"
    using Cons.prems(3) by simp
  have room: "chunkWordCount (segStep st p) + sum_list (map wordCount ps) \<le> maxWordsPerSlide"
    unfolding n' using Cons.prems(4) by simp
  have go: "segLoop m st (p # ps) = segLoop m (segStep st p) ps"
    using Cons.prems(5) by (intro segLoop_step) (simp add: c')
  show ?case
    unfolding go using Cons.IH [OF c' ne rest room Cons.prems(5)] b' n' by simp
qed

lemma slice0_single: "1 \<le> m \<Longrightarrow> slice0 [x] m = [x]"
  by (simp add: slice0_def)

text \<open>
  C6, as the code has it: content with at least one paragraph, no heading behind the
  first paragraph, no quote, no image and at most 50 words in all becomes one plain
  chunk, the paragraphs joined by blank lines and trimmed.
\<close>

theorem segmentContent_single_chunk:
  assumes "paragraphs_of (cleanHTML html) = p # ps"
    and "\<forall>q \<in> set (p # ps). \<not> isQuote q \<and> \<not> hasImageInParagraph q"
    and "\<forall>q \<in> set ps. \<not> isHeading q"
    and "sum_list (map wordCount (p # ps)) \<le> 50"
    and "1 \<le> m"
  shows "segmentContent html m =
           [\<lparr> chunk_title = None, chunk_text = trim (join [10, 10] (p # ps)),
              chunk_image = None, chunk_imageAlt = None, hasImage = False,
              isQuoteChunk = False \<rparr>]"
proof -
  define st1 where "st1 = segStep init_state p"
  define stF where "stF = segLoop m st1 ps"
  have "p \<in> set (paragraphs_of (cleanHTML html))" unfolding assms(1) by simp
  then have nb: "nonblank p" by (rule paragraphs_nonblank)
  then have pne: "p \<noteq> []" by (rule nonblank_nonempty)
  have e: "currentChunk init_state = []" by (simp add: init_state_def)
  have step: "st1 = addParagraph p init_state"
    unfolding st1_def using assms(2) e by (intro segStep_append) simp_all
  have c1: "chunks st1 = []" unfolding step by (simp add: addParagraph_def init_state_def)
  have b1: "currentChunk st1 = p" unfolding step by (simp add: addParagraph_def init_state_def)
  have n1: "chunkWordCount st1 = wordCount p"
    unfolding step by (simp add: addParagraph_def init_state_def wordCount_words)
  have ne1: "currentChunk st1 \<noteq> []" unfolding b1 by (rule pne)
  have plain: "\<forall>q \<in> set ps. \<not> isQuote q \<and> \<not> hasImageInParagraph q \<and> \<not> isHeading q"
    using assms(2,3) by simp
  have room: "chunkWordCount st1 + sum_list (map wordCount ps) \<le> maxWordsPerSlide"
    unfolding n1 using assms(4) by (simp add: maxWordsPerSlide_def)
  have acc: "chunks stF = []
      \<and> currentChunk stF = currentChunk st1 @ concat (map (\<lambda>q. [10, 10] @ q) ps)
      \<and> chunkWordCount stF = chunkWordCount st1 + sum_list (map wordCount ps)"
    unfolding stF_def using c1 ne1 plain room assms(5) by (rule segLoop_accumulate)
  then have cF: "chunks stF = []" and bF: "currentChunk stF = join [10, 10] (p # ps)"
    by (simp_all add: b1 join_Cons)
  have go: "segLoop m init_state (p # ps) = stF"
    unfolding stF_def st1_def using assms(5) c1 [unfolded st1_def]
    by (intro segLoop_step) simp
  have "nonblank (join [10, 10] (p # ps))"
    using nb unfolding join_Cons by (auto simp: nonblank_iff)
  then have t: "trim (currentChunk stF) \<noteq> []" unfolding bF by (simp add: nonblank_def)
  have "addRemaining m stF = [plain_chunk None (currentChunk stF)]"
    using t cF assms(5) by (simp add: addRemaining_def)
  then have "segmentParagraphs (p # ps) m = [plain_chunk None (join [10, 10] (p # ps))]"
    unfolding segmentParagraphs_def go bF using assms(5) by (simp only: slice0_single)
  then show ?thesis
    unfolding segmentContent_def assms(1) plain_chunk_def .
qed

text \<open>
  C10, as the code has it: at a quote that is no heading and fits into the budget, the
  step closes one chunk holding only the cleaned quote and empties the buffer; what was
  in the buffer takes no part in the rest of the run.
\<close>

theorem segStep_quote_drops_buffer:
  assumes "isQuote q" and "\<not> isHeading q"
    and "chunkWordCount st + length (words_of q) \<le> maxWordsPerSlide"
  shows "segStep st q =
           \<lparr> chunks = chunks st @
               [\<lparr> chunk_title = None, chunk_text = cleanQuoteText q,
                  chunk_image = (if hasImageInParagraph q then extractImageFromParagraph q else None),
                  chunk_imageAlt = (if hasImageInParagraph q then extractImageAlt q else None),
                  hasImage = hasImageInParagraph q, isQuoteChunk = True \<rparr>],
             currentChunk = [], chunkWordCount = 0 \<rparr>
         \<and> segLoop m st (q # rest)
             = segLoop m (st\<lparr> currentChunk := [], chunkWordCount := 0 \<rparr>) (q # rest)"
proof -
  define st0 where "st0 = st\<lparr> currentChunk := [], chunkWordCount := 0 \<rparr>"
  have c0: "chunks st0 = chunks st" and n0: "chunkWordCount st0 = 0" by (simp_all add: st0_def)
  have fit0: "chunkWordCount st0 + length (words_of q) \<le> maxWordsPerSlide"
    unfolding n0 using assms(3) by simp
  have a: "segStep st q =
           \<lparr> chunks = chunks st @
               [\<lparr> chunk_title = None, chunk_text = cleanQuoteText q,
                  chunk_image = (if hasImageInParagraph q then extractImageFromParagraph q else None),
                  chunk_imageAlt = (if hasImageInParagraph q then extractImageAlt q else None),
                  hasImage = hasImageInParagraph q, isQuoteChunk = True \<rparr>],
             currentChunk = [], chunkWordCount = 0 \<rparr>"
    using assms by (rule segStep_quote)
  have "segStep st0 q = segStep st q"
    unfolding a segStep_quote [OF assms(1,2) fit0] c0 ..
  then have "segLoop m st (q # rest) = segLoop m st0 (q # rest)"
    by (simp only: segLoop.simps)
  with a show ?thesis unfolding st0_def by (rule conjI)
qed

subsection \<open>Text without markup\<close>

text \<open>
  Every expression of the cleaning pass starts with \<^verbatim>\<open><\<close>, \<^verbatim>\<open>&\<close> or a line feed. A
  text with none of the three passes unchanged, up to the final trim.
\<close>

lemma starts_ci_lt: "c \<noteq> 60 \<Longrightarrow> \<not> starts_ci (c # r) (60 # pat)"
  by (auto simp: canon_def)

lemma m_element_first: "c \<noteq> 60 \<Longrightarrow> m_element name (c # r) = None"
  using starts_ci_lt [of c r name] by (simp add: m_element_def del: starts_ci.simps)

lemma lit_lt_Cons: "lit (CHR ''<'' # s) = 60 # lit s"
  by (simp add: lit_def)

lemma lit_amp_Cons: "lit (CHR ''&'' # s) = 38 # lit s"
  by (simp add: lit_def)

lemma m_br_first: "c \<noteq> 60 \<Longrightarrow> m_br (c # r) = None"
  using starts_ci_lt [of c r "lit ''br''"]
  by (simp add: m_br_def lit_lt_Cons del: starts_ci.simps)

lemma m_p_close_first: "c \<noteq> 60 \<Longrightarrow> m_lit_ci (lit ''</p>'') (c # r) = None"
  using starts_ci_lt [of c r "lit ''/p>''"]
  by (simp add: m_lit_ci_def lit_lt_Cons del: starts_ci.simps)

lemma m_p_open_first: "c \<noteq> 60 \<Longrightarrow> m_p_open (c # r) = None"
  using starts_ci_lt [of c r "lit ''p''"]
  by (simp add: m_p_open_def lit_lt_Cons del: starts_ci.simps)

lemma m_tag_first: "c \<noteq> 60 \<Longrightarrow> m_tag (c # r) = None"
  by (simp add: m_tag_def)

lemma m_blank3_first: "c \<noteq> 10 \<Longrightarrow> m_blank3 (c # r) = None"
  by (simp add: m_blank3_def)

lemma m_blank2_first: "c \<noteq> 10 \<Longrightarrow> m_blank2 (c # r) = None"
  by (simp add: m_blank2_def)

lemma m_lit_first: "c \<noteq> p \<Longrightarrow> m_lit (p # pat) (c # r) = None"
  by (simp add: m_lit_def)

lemma replace_global_none:
  "(\<And>c r. c \<in> set s \<Longrightarrow> m (c # r) = None) \<Longrightarrow> replace_global m rep s = s"
  by (induction s) auto

lemma split_rx_none:
  "(\<And>c r. c \<in> set s \<Longrightarrow> m (c # r) = None) \<Longrightarrow> split_rx m s = [s]"
  by (induction s) auto

lemma js_includes_none: "c \<notin> set s \<Longrightarrow> \<not> js_includes s (c # pat)"
  by (induction s) auto

lemma hasImage_none: "60 \<notin> set s \<Longrightarrow> \<not> hasImageInParagraph s"
proof -
  have "60 \<notin> set s \<Longrightarrow>
        \<not> rx_test (\<lambda>s. starts_ci s (lit ''<img'')
               \<and> includes_ci (takeWhile (\<lambda>c. c \<noteq> 62) (drop 4 s)) (lit ''src'')) s"
  proof (induction s)
    case Nil
    then show ?case by (simp add: lit_def)
  next
    case (Cons c s)
    then have "\<not> starts_ci (c # s) (lit ''<img'')"
      using starts_ci_lt [of c s "lit ''img''"] by (simp add: lit_lt_Cons del: starts_ci.simps)
    with Cons show ?case by simp
  qed
  then show "60 \<notin> set s \<Longrightarrow> \<not> hasImageInParagraph s"
    by (simp add: hasImageInParagraph_def)
qed

lemma cleanHTML_markup_free:
  assumes "markup_free s"
  shows "cleanHTML s = trim s"
proof -
  have lt: "\<And>c. c \<in> set s \<Longrightarrow> c \<noteq> 60" and amp: "\<And>c. c \<in> set s \<Longrightarrow> c \<noteq> 38"
    and nl: "\<And>c. c \<in> set s \<Longrightarrow> c \<noteq> 10"
    using assms by (auto simp: markup_free_def)
  have e: "\<And>name rep. replace_global (m_element name) rep s = s"
    by (rule replace_global_none) (simp add: m_element_first lt)
  have a: "\<And>pat rep. replace_global (m_lit (lit (CHR ''&'' # pat))) rep s = s"
    unfolding lit_amp_Cons by (rule replace_global_none) (simp add: m_lit_first amp)
  have b: "\<And>rep. replace_global m_br rep s = s"
    by (rule replace_global_none) (simp add: m_br_first lt)
  have p: "\<And>rep. replace_global (m_lit_ci (lit ''</p>'')) rep s = s"
    by (rule replace_global_none) (simp add: m_p_close_first lt)
  have q: "\<And>rep. replace_global m_p_open rep s = s"
    by (rule replace_global_none) (simp add: m_p_open_first lt)
  have t: "\<And>rep. replace_global m_tag rep s = s"
    by (rule replace_global_none) (simp add: m_tag_first lt)
  have n: "\<And>rep. replace_global m_blank3 rep s = s"
    by (rule replace_global_none) (simp add: m_blank3_first nl)
  show ?thesis
    unfolding cleanHTML_def Let_def by (simp only: e a b p q t n)
qed

lemma paragraphs_of_single:
  assumes "10 \<notin> set s" and "nonblank s"
  shows "paragraphs_of s = [s]"
proof -
  have nl: "\<And>c. c \<in> set s \<Longrightarrow> c \<noteq> 10" using assms(1) by auto
  have "split_rx m_blank2 s = [s]"
    by (rule split_rx_none) (simp add: m_blank2_first nl)
  then show ?thesis using assms(2) by (simp add: paragraphs_of_def nonblank_def)
qed

lemma trim_keep: "s \<noteq> [] \<Longrightarrow> \<not> is_ws (hd s) \<Longrightarrow> \<not> is_ws (last s) \<Longrightarrow> trim s = s"
  using trim_unique [of "[]" "[]" s] by simp

text \<open>One paragraph that triggers nothing becomes one plain chunk, whatever its length.\<close>

lemma segmentParagraphs_single:
  assumes "\<not> isQuote p" and "\<not> hasImageInParagraph p" and "nonblank p" and "1 \<le> m"
  shows "segmentParagraphs [p] m = [plain_chunk None p]"
proof -
  have e: "currentChunk init_state = []" by (simp add: init_state_def)
  have step: "segStep init_state p = addParagraph p init_state"
    using assms(1,2) e by (intro segStep_append) simp_all
  have c1: "chunks (segStep init_state p) = []"
    unfolding step by (simp add: addParagraph_def init_state_def)
  have b1: "currentChunk (segStep init_state p) = p"
    unfolding step by (simp add: addParagraph_def init_state_def)
  have go: "segLoop m init_state [p] = segStep init_state p"
    by (simp add: Let_def)
  have "addRemaining m (segStep init_state p) = [plain_chunk None p]"
    using assms(3,4) c1 b1 by (simp add: addRemaining_def nonblank_def)
  then show ?thesis
    unfolding segmentParagraphs_def go using assms(4) by (simp only: slice0_single)
qed

subsection \<open>The segmenter at concrete contents\<close>

lemma is_ws_a: "is_ws 97 = False"
  by (simp add: is_ws_def)

lemma is_ws_space: "is_ws 32 = True"
  by (simp add: is_ws_def)

lemma markup_free_words51: "markup_free words51"
  by (simp add: words51_def markup_free_def lit_def)

lemma trim_words51: "trim words51 = words51"
  by (rule trim_keep) (simp_all add: words51_def lit_def is_ws_a)

lemma clean_words51: "cleanHTML words51 = words51"
  using cleanHTML_markup_free [OF markup_free_words51] by (simp only: trim_words51)

lemma nonblank_words51: "nonblank words51"
  unfolding nonblank_def trim_words51 by (simp add: words51_def lit_def)

lemma paragraphs_words51: "paragraphs_of words51 = [words51]"
  using markup_free_words51 nonblank_words51
  by (intro paragraphs_of_single) (simp_all add: markup_free_def)

lemma wordCount_words51: "wordCount words51 = 51"
  unfolding wordCount_def words_of_def trim_words51
  by (simp add: words51_def lit_def is_ws_a is_ws_space)

lemma plain_words51: "plain_paragraph words51"
proof -
  have lt: "60 \<notin> set words51" using markup_free_words51 by (simp add: markup_free_def)
  have h: "\<not> isHeading words51"
    unfolding isHeading_def trim_words51 by (simp add: words51_def lit_def hash_marker_def)
  have "\<not> starts_with words51 (lit ''<blockquote'')" and "\<not> starts_with words51 (lit ''>'')"
    by (simp_all add: words51_def lit_def)
  moreover have "\<not> js_includes words51 (lit ''<blockquote'')"
    unfolding lit_lt_Cons using lt by (rule js_includes_none)
  ultimately have q: "\<not> isQuote words51"
    unfolding isQuote_def trim_words51 by simp
  have i: "\<not> hasImageInParagraph words51" using lt by (rule hasImage_none)
  show ?thesis unfolding plain_paragraph_def using h q i by simp
qed

lemma segment_words51:
  "map chunk_text (segmentParagraphs [words51] 10) = [words51]
   \<and> map isQuoteChunk (segmentParagraphs [words51] 10) = [False]
   \<and> map hasImage (segmentParagraphs [words51] 10) = [False]"
proof -
  have "segmentParagraphs [words51] 10 = [plain_chunk None words51]"
    using plain_words51 nonblank_words51
    by (intro segmentParagraphs_single) (simp_all add: plain_paragraph_def)
  then show ?thesis by (simp add: plain_chunk_def trim_words51)
qed

theorem segmentContent_budget_counterexample:
  "paragraphs_of (cleanHTML words51) = [words51]
   \<and> plain_paragraph words51
   \<and> map chunk_text (segmentContent words51 10) = [words51]
   \<and> map isQuoteChunk (segmentContent words51 10) = [False]
   \<and> map hasImage (segmentContent words51 10) = [False]
   \<and> wordCount words51 = 51"
  using segment_words51 plain_words51 wordCount_words51
  by (simp only: segmentContent_def clean_words51 paragraphs_words51 simp_thms)

lemma paragraphs_quote_and_text:
  "paragraphs_of (cleanHTML quote_and_text) = [lit ''> a'', lit ''b'']"
  by (simp add: quote_and_text_def seg_eval)

lemma segment_quote_and_text:
  "map chunk_text (segmentParagraphs [lit ''> a'', lit ''b''] 5) = [lit ''a'', lit ''b'']
   \<and> map isQuoteChunk (segmentParagraphs [lit ''> a'', lit ''b''] 5) = [True, False]"
  by (simp add: seg_eval)

theorem segmentContent_budget_witness:
  "hd (segmentContent quote_and_text 5) \<in> set (segmentContent quote_and_text 5)
   \<and> isQuoteChunk (hd (segmentContent quote_and_text 5))
   \<and> (\<exists>p \<in> set (paragraphs_of (cleanHTML quote_and_text)).
         isQuote p \<and> chunk_text (hd (segmentContent quote_and_text 5)) = cleanQuoteText p)
   \<and> last (segmentContent quote_and_text 5) \<in> set (segmentContent quote_and_text 5)
   \<and> \<not> isQuoteChunk (last (segmentContent quote_and_text 5))
   \<and> (wordCount (chunk_text (last (segmentContent quote_and_text 5))) \<le> 50
      \<or> (\<exists>p \<in> set (paragraphs_of (cleanHTML quote_and_text)).
            chunk_text (last (segmentContent quote_and_text 5)) = trim p))"
proof -
  define X where "X = segmentContent quote_and_text 5"
  have q: "map isQuoteChunk X = [True, False]"
    unfolding X_def segmentContent_def paragraphs_quote_and_text
    using segment_quote_and_text by (rule conjunct2)
  then have "length (map isQuoteChunk X) = 2" by simp
  then have ne: "X \<noteq> []" by auto
  have h: "hd X \<in> set X" and l: "last X \<in> set X" using ne by simp_all
  have "isQuoteChunk (hd X) = hd (map isQuoteChunk X)" using ne by (simp add: hd_map)
  then have qh: "isQuoteChunk (hd X)" unfolding q by simp
  have "isQuoteChunk (last X) = last (map isQuoteChunk X)" using ne by (simp add: last_map)
  then have ql: "\<not> isQuoteChunk (last X)" unfolding q by simp
  show ?thesis
    using h l qh ql
      segmentContent_budget [of "hd X" quote_and_text 5]
      segmentContent_budget [of "last X" quote_and_text 5]
    unfolding X_def by simp
qed

lemma paragraphs_two_short:
  "paragraphs_of (cleanHTML two_short_paragraphs)
   = [lit ''First paragraph text here.'', lit ''Second paragraph.'']"
  by (simp add: two_short_paragraphs_def seg_eval)

lemma flags_two_short:
  "\<not> isQuote (lit ''First paragraph text here.'')
   \<and> \<not> hasImageInParagraph (lit ''First paragraph text here.'')
   \<and> \<not> isQuote (lit ''Second paragraph.'')
   \<and> \<not> hasImageInParagraph (lit ''Second paragraph.'')
   \<and> \<not> isHeading (lit ''Second paragraph.'')"
  by (simp add: seg_eval)

lemma words_two_short:
  "sum_list (map wordCount [lit ''First paragraph text here.'', lit ''Second paragraph.'']) = 6"
  by (simp add: wordCount_def seg_eval)

theorem segmentContent_single_chunk_witness:
  "paragraphs_of (cleanHTML two_short_paragraphs)
     = [lit ''First paragraph text here.'', lit ''Second paragraph.'']
   \<and> \<not> isQuote (lit ''First paragraph text here.'')
   \<and> \<not> hasImageInParagraph (lit ''First paragraph text here.'')
   \<and> \<not> isQuote (lit ''Second paragraph.'')
   \<and> \<not> hasImageInParagraph (lit ''Second paragraph.'')
   \<and> \<not> isHeading (lit ''Second paragraph.'')
   \<and> sum_list (map wordCount [lit ''First paragraph text here.'', lit ''Second paragraph.'']) \<le> 50
   \<and> segmentContent two_short_paragraphs 3 =
        [\<lparr> chunk_title = None,
           chunk_text = trim (join [10, 10]
             [lit ''First paragraph text here.'', lit ''Second paragraph.'']),
           chunk_image = None, chunk_imageAlt = None, hasImage = False,
           isQuoteChunk = False \<rparr>]"
proof -
  have a: "\<forall>q \<in> set [lit ''First paragraph text here.'', lit ''Second paragraph.''].
             \<not> isQuote q \<and> \<not> hasImageInParagraph q"
    using flags_two_short by simp
  have b: "\<forall>q \<in> set [lit ''Second paragraph.'']. \<not> isHeading q"
    using flags_two_short by simp
  have c: "sum_list (map wordCount [lit ''First paragraph text here.'', lit ''Second paragraph.''])
             \<le> 50"
    unfolding words_two_short by simp
  have d: "(1::int) \<le> 3" by simp
  show ?thesis
    using segmentContent_single_chunk [OF paragraphs_two_short a b c d]
      paragraphs_two_short flags_two_short c
    by blast
qed

lemma paragraphs_text_then_heading:
  "paragraphs_of (cleanHTML text_then_heading) = [lit ''Intro'', lit ''<h2>Head</h2>'']"
  by (simp add: text_then_heading_def seg_eval)

lemma segment_text_then_heading:
  "map chunk_text (segmentParagraphs [lit ''Intro'', lit ''<h2>Head</h2>''] 10)
   = [lit ''Intro'', lit ''<h2>Head</h2>'']"
  by (simp add: seg_eval)

lemma words_text_then_heading:
  "sum_list (map wordCount [lit ''Intro'', lit ''<h2>Head</h2>'']) = 2"
  by (simp add: wordCount_def seg_eval)

text \<open>Two words in all, and the heading still closes the chunk in front of it.\<close>

theorem segmentContent_single_chunk_counterexample:
  "sum_list (map wordCount (paragraphs_of (cleanHTML text_then_heading))) = 2
   \<and> map chunk_text (segmentContent text_then_heading 10) = [lit ''Intro'', lit ''<h2>Head</h2>'']
   \<and> length (segmentContent text_then_heading 10) = 2"
proof -
  have a: "map chunk_text (segmentContent text_then_heading 10) = [lit ''Intro'', lit ''<h2>Head</h2>'']"
    unfolding segmentContent_def paragraphs_text_then_heading by (rule segment_text_then_heading)
  then have "length (map chunk_text (segmentContent text_then_heading 10)) = 2" by simp
  then have "length (segmentContent text_then_heading 10) = 2" by simp
  with a show ?thesis
    unfolding paragraphs_text_then_heading words_text_then_heading by simp
qed

lemma flags_quote_q:
  "isQuote (lit ''> q'') \<and> \<not> isHeading (lit ''> q'')
   \<and> length (words_of (lit ''> q'')) = 2 \<and> cleanQuoteText (lit ''> q'') = lit ''q''
   \<and> \<not> hasImageInParagraph (lit ''> q'')"
  by (simp add: seg_eval)

lemma buffer_a_fields:
  "chunks buffer_a = [] \<and> currentChunk buffer_a = lit ''a'' \<and> chunkWordCount buffer_a = 1"
  by (simp add: buffer_a_def)

theorem segStep_quote_drops_buffer_witness:
  "isQuote (lit ''> q'') \<and> \<not> isHeading (lit ''> q'')
   \<and> chunkWordCount buffer_a + length (words_of (lit ''> q'')) \<le> maxWordsPerSlide
   \<and> currentChunk buffer_a = lit ''a''
   \<and> map chunk_text (chunks (segStep buffer_a (lit ''> q''))) = [lit ''q'']
   \<and> currentChunk (segStep buffer_a (lit ''> q'')) = []
   \<and> segLoop 3 buffer_a [lit ''> q'']
       = segLoop 3 (buffer_a\<lparr> currentChunk := [], chunkWordCount := 0 \<rparr>) [lit ''> q'']"
proof -
  have q: "isQuote (lit ''> q'')" and h: "\<not> isHeading (lit ''> q'')"
    using flags_quote_q by simp_all
  have f: "chunkWordCount buffer_a + length (words_of (lit ''> q'')) \<le> maxWordsPerSlide"
    using flags_quote_q buffer_a_fields by (simp add: maxWordsPerSlide_def)
  note t = segStep_quote_drops_buffer [OF q h f, of 3 "[]"]
  from t have s: "segStep buffer_a (lit ''> q'') =
           \<lparr> chunks = chunks buffer_a @
               [\<lparr> chunk_title = None, chunk_text = cleanQuoteText (lit ''> q''),
                  chunk_image = (if hasImageInParagraph (lit ''> q'')
                                 then extractImageFromParagraph (lit ''> q'') else None),
                  chunk_imageAlt = (if hasImageInParagraph (lit ''> q'')
                                    then extractImageAlt (lit ''> q'') else None),
                  hasImage = hasImageInParagraph (lit ''> q''), isQuoteChunk = True \<rparr>],
             currentChunk = [], chunkWordCount = 0 \<rparr>"
    by (rule conjunct1)
  have c: "map chunk_text (chunks (segStep buffer_a (lit ''> q''))) = [lit ''q'']"
    unfolding s using flags_quote_q buffer_a_fields by simp
  have b: "currentChunk (segStep buffer_a (lit ''> q'')) = []"
    unfolding s by simp
  from t have l: "segLoop 3 buffer_a [lit ''> q'']
       = segLoop 3 (buffer_a\<lparr> currentChunk := [], chunkWordCount := 0 \<rparr>) [lit ''> q'']"
    by (rule conjunct2)
  show ?thesis using q h f buffer_a_fields c b l by blast
qed

lemma paragraphs_heading_quote:
  "paragraphs_of (cleanHTML text_then_heading_quote)
   = [lit ''a'', lit ''<h2><blockquote>q</blockquote></h2>'']"
  by (simp add: text_then_heading_quote_def seg_eval)

lemma flags_heading_quote:
  "plain_paragraph (lit ''a'')
   \<and> isQuote (lit ''<h2><blockquote>q</blockquote></h2>'')
   \<and> wordCount (lit ''a'') + wordCount (lit ''<h2><blockquote>q</blockquote></h2>'') = 2"
  by (simp add: plain_paragraph_def wordCount_def seg_eval)

lemma segment_heading_quote:
  "map chunk_text
     (segmentParagraphs [lit ''a'', lit ''<h2><blockquote>q</blockquote></h2>''] 10)
   = [lit ''a'', lit ''<h2>q</h2>'']"
  by (simp add: seg_eval)

text \<open>
  A quote that is also a heading: the heading closes the buffer as a chunk of its own
  before the quote is looked at, so the buffered paragraph is in the output.
\<close>

theorem segStep_quote_drops_buffer_counterexample:
  "paragraphs_of (cleanHTML text_then_heading_quote)
     = [lit ''a'', lit ''<h2><blockquote>q</blockquote></h2>'']
   \<and> plain_paragraph (lit ''a'')
   \<and> isQuote (lit ''<h2><blockquote>q</blockquote></h2>'')
   \<and> wordCount (lit ''a'') + wordCount (lit ''<h2><blockquote>q</blockquote></h2>'') = 2
   \<and> map chunk_text (segmentContent text_then_heading_quote 10) = [lit ''a'', lit ''<h2>q</h2>'']"
  using paragraphs_heading_quote flags_heading_quote segment_heading_quote
  by (simp only: segmentContent_def simp_thms)

subsection \<open>The marker of an indented quote\<close>

text \<open>
  A quote emits its chunk in its own iteration, flagged as a quote, with the text that
  \<^verbatim>\<open>cleanQuoteText\<close> returns.
\<close>

lemma closeAtTrigger_quote_emits:
  assumes "isQuote q"
  shows "\<exists>c. chunks (closeAtTrigger q st) = chunks st @ [c]
             \<and> isQuoteChunk c \<and> chunk_text c = cleanQuoteText q"
    and "currentChunk (closeAtTrigger q st) = []"
  using assms by (simp_all add: closeAtTrigger_def)

lemma segStep_quote_emits:
  assumes "isQuote q"
  shows "\<exists>cs c. chunks (segStep st q) = cs @ [c] \<and> isQuoteChunk c \<and> chunk_text c = cleanQuoteText q"
    and "currentChunk (segStep st q) = []"
  unfolding segStep_def using closeAtTrigger_quote_emits [OF assms] by blast+

lemma paragraphs_indented_quote:
  "paragraphs_of (cleanHTML text_then_indented_quote) = [lit ''Intro'', lit '' > quoted words'']"
  by (simp add: text_then_indented_quote_def seg_eval)

lemma flags_indented_quote:
  "isQuote (lit '' > quoted words'')
   \<and> cleanQuoteText (lit '' > quoted words'') = lit ''> quoted words''"
  by (simp add: seg_eval)

lemma segment_indented_quote:
  "map chunk_text (segmentParagraphs [lit ''Intro'', lit '' > quoted words''] 10)
     = [lit ''> quoted words'']
   \<and> map isQuoteChunk (segmentParagraphs [lit ''Intro'', lit '' > quoted words''] 10) = [True]"
  by (simp add: seg_eval)

text \<open>
  C5 at the content \<^verbatim>\<open>"Intro\n\n > quoted words"\<close>: the second paragraph is recognised
  as a quote, on its trimmed text, and the chunk it closes keeps the marker, which
  \<^verbatim>\<open>cleanQuoteText\<close> looks for at the start of the untrimmed paragraph.
\<close>

theorem cleanQuoteText_keeps_marker:
  "paragraphs_of (cleanHTML text_then_indented_quote) = [lit ''Intro'', lit '' > quoted words'']
   \<and> isQuote (lit '' > quoted words'')
   \<and> cleanQuoteText (lit '' > quoted words'') = lit ''> quoted words''
   \<and> map chunk_text (segmentContent text_then_indented_quote 10) = [lit ''> quoted words'']
   \<and> map isQuoteChunk (segmentContent text_then_indented_quote 10) = [True]"
  using paragraphs_indented_quote flags_indented_quote segment_indented_quote
  by (simp only: segmentContent_def simp_thms)

subsection \<open>The rendered document\<close>

lemma js_includes_append: "js_includes x pat \<Longrightarrow> js_includes (a @ x @ b) pat"
proof -
  assume "js_includes x pat"
  then obtain u v where "x = u @ pat @ v" by (auto simp: js_includes_iff)
  then have "a @ x @ b = (a @ u) @ pat @ (v @ b)" by simp
  then show ?thesis unfolding js_includes_iff by blast
qed

lemma js_includes_concat:
  "x \<in> set xs \<Longrightarrow> js_includes x pat \<Longrightarrow> js_includes (concat xs) pat"
proof -
  assume "x \<in> set xs" and i: "js_includes x pat"
  then obtain ys zs where "xs = ys @ x # zs" by (auto simp: in_set_conv_decomp)
  then have "concat xs = concat ys @ x @ concat zs" by simp
  with i show ?thesis by (simp only: js_includes_append)
qed

lemma dropWhile_keeps:
  "pat \<noteq> [] \<Longrightarrow> \<not> P (hd pat) \<Longrightarrow> \<exists>a'. dropWhile P (a @ pat @ b) = a' @ pat @ b"
proof (induction a)
  case Nil
  then have "dropWhile P (pat @ b) = pat @ b" by (cases pat) auto
  then have "dropWhile P ([] @ pat @ b) = [] @ pat @ b" by simp
  then show ?case by blast
next
  case (Cons x a)
  show ?case
  proof (cases "P x")
    case True
    with Cons show ?thesis by simp
  next
    case False
    then have "dropWhile P ((x # a) @ pat @ b) = (x # a) @ pat @ b" by simp
    then show ?thesis by blast
  qed
qed

text \<open>A marker without whitespace at its ends survives the final trim.\<close>

lemma js_includes_trim:
  assumes "js_includes s pat" and "pat \<noteq> []" and "\<not> is_ws (hd pat)" and "\<not> is_ws (last pat)"
  shows "js_includes (trim s) pat"
proof -
  from assms(1) obtain a b where s: "s = a @ pat @ b" by (auto simp: js_includes_iff)
  obtain a' where a': "dropWhile is_ws (a @ pat @ b) = a' @ pat @ b"
    using dropWhile_keeps [of pat is_ws a b, OF assms(2,3)] by blast
  have rp: "rev pat \<noteq> []" and hp: "\<not> is_ws (hd (rev pat))"
    using assms(2,4) by (simp_all add: hd_rev)
  obtain b' where b': "dropWhile is_ws (rev b @ rev pat @ rev a') = b' @ rev pat @ rev a'"
    using dropWhile_keeps [of "rev pat" is_ws "rev b" "rev a'", OF rp hp] by blast
  have "trim s = rev (dropWhile is_ws (rev (a' @ pat @ b)))"
    unfolding trim_def s a' ..
  also have "\<dots> = rev (dropWhile is_ws (rev b @ rev pat @ rev a'))" by simp
  also have "\<dots> = rev (b' @ rev pat @ rev a')" unfolding b' ..
  also have "\<dots> = a' @ pat @ rev b'" by simp
  finally show ?thesis unfolding js_includes_iff by blast
qed

lemma viewport_piece:
  \<open>js_includes
     (lit ''  <meta name="viewport" content="width=device-width,minimum-scale=1,initial-scale=1">\<newline>'')
     (lit ''viewport'')\<close>
  by (simp add: lit_def)

lemma story_piece:
  "js_includes (lit ''  </amp-story>\<newline>'') (lit ''amp-story'')
   \<and> js_includes (lit ''  </amp-story>\<newline>'') (lit ''amp'')"
  by (simp add: lit_def)

lemma marker_ends:
  "\<not> is_ws (hd (lit ''viewport'')) \<and> \<not> is_ws (last (lit ''viewport''))
   \<and> \<not> is_ws (hd (lit ''amp-story'')) \<and> \<not> is_ws (last (lit ''amp-story''))
   \<and> \<not> is_ws (hd (lit ''amp'')) \<and> \<not> is_ws (last (lit ''amp''))
   \<and> lit ''viewport'' \<noteq> [] \<and> lit ''amp-story'' \<noteq> [] \<and> lit ''amp'' \<noteq> []"
  by (simp add: lit_def is_ws_def)

lemma document_pieces:
  \<open>lit ''  <meta name="viewport" content="width=device-width,minimum-scale=1,initial-scale=1">\<newline>''
     \<in> set (document_parts h slides metadata)
   \<and> lit ''  </amp-story>\<newline>'' \<in> set (document_parts h slides metadata)\<close>
  by (simp add: document_parts_def)

lemma generateAMPHTML_markers:
  "js_includes (generateAMPHTML h slides metadata) (lit ''viewport'')
   \<and> js_includes (generateAMPHTML h slides metadata) (lit ''amp-story'')
   \<and> js_includes (generateAMPHTML h slides metadata) (lit ''amp'')"
proof -
  have v: "js_includes (documentAMP h slides metadata) (lit ''viewport'')"
    unfolding documentAMP_def
    using document_pieces [of h slides metadata] viewport_piece
    by (intro js_includes_concat) blast+
  have s: "js_includes (documentAMP h slides metadata) (lit ''amp-story'')"
    unfolding documentAMP_def
    using document_pieces [of h slides metadata] story_piece
    by (intro js_includes_concat) blast+
  have a: "js_includes (documentAMP h slides metadata) (lit ''amp'')"
    unfolding documentAMP_def
    using document_pieces [of h slides metadata] story_piece
    by (intro js_includes_concat) blast+
  show ?thesis
    unfolding generateAMPHTML_def
    using v s a marker_ends by (intro conjI js_includes_trim) blast+
qed

text \<open>
  C9: the document rendered from a generated story passes the validator, with no error,
  for every post, every options, every metadata and every host.
\<close>

theorem generateAMPHTML_valid:
  "isValid (validateAMPHTML
     (generateAMPHTML h (generateStory tmpl random postData opts) metadata))
   \<and> errors (validateAMPHTML
     (generateAMPHTML h (generateStory tmpl random postData opts) metadata)) = []"
  using generateAMPHTML_markers [of h "generateStory tmpl random postData opts" metadata]
  by (simp add: validateAMPHTML_def Let_def)

theorem generateAMPHTML_valid_witness:
  "isValid (validateAMPHTML
     (generateAMPHTML ex_host
        (generateStory ex_template ex_random (ex_post two_short_paragraphs)
           (ex_options None None None)) ex_metadata))"
  using generateAMPHTML_valid [of ex_host ex_template ex_random "ex_post two_short_paragraphs"
      "ex_options None None None" ex_metadata]
  by (rule conjunct1)

end
